theory Spec2Isabelle
  imports Main "HOL-Library.AList" "HOL-Library.Word"
begin

section \<open>The batch-translation notebook\<close>

text \<open>
  The verified program is the batch-translation notebook (notebook 90): request
  building, chunking, polling, download and parsing. The notebook is a linear script,
  so each code cell is a function from the state it reads to the state it leaves, with
  every raise a value \<open>Inl e\<close>.

  Conventions of the model.
  \<^item> A Python \<open>str\<close> is a \<open>string\<close>: a list of characters, each a code point below 256.
  \<^item> A Python \<open>int\<close> is an \<open>int\<close>; the integer in a row of a data frame is a 64-bit word.
  \<^item> A \<open>pathlib.Path\<close> is the list of its components.
  \<^item> The file system is a record: the text of every file, and the set of directories.
    The working directory is the empty path and always exists.
  \<^item> The batch service is a parameter: what it answers to a query is a function. A
    query that fails with a network error, and \<open>time.sleep\<close>, are outside the model.
\<close>

subsection \<open>Errors\<close>

datatype error =
    ValueError
  | KeyError
  | TypeError
  | IndexError
  | AttributeError
  | ZeroDivisionError
  | FileNotFoundError
  | FileExistsError
  | IsADirectoryError
  | JSONDecodeError

text \<open>Sequencing of steps that may raise: the first error ends the run.\<close>

definition bind_err :: "error + 'a \<Rightarrow> ('a \<Rightarrow> error + 'b) \<Rightarrow> error + 'b" where
  "bind_err m f = (case m of Inl e \<Rightarrow> Inl e | Inr x \<Rightarrow> f x)"

subsection \<open>Strings and integers of the Python library\<close>

text \<open>\<open>str(n)\<close> for an integer: decimal digits, a leading minus sign when negative.\<close>

definition digit_char :: "nat \<Rightarrow> char" where
  "digit_char d = ''0123456789'' ! d"

fun str_nat :: "nat \<Rightarrow> string" where
  "str_nat n = (if n < 10 then [digit_char n] else str_nat (n div 10) @ [digit_char (n mod 10)])"

declare str_nat.simps [simp del]

definition py_str :: "int \<Rightarrow> string" where
  "py_str i = (if i < 0 then CHR ''-'' # str_nat (nat (- i)) else str_nat (nat i))"

text \<open>
  \<open>int(s)\<close> for a string: white space around the number is dropped, then comes an
  optional sign and decimal digits, where one underscore may stand between two digits.
  Anything else is a \<open>ValueError\<close>, here \<open>None\<close>. Leading zeros are accepted.

  The white space of \<open>int\<close> is not that of \<open>str.strip\<close>: \<open>int\<close> drops a tab, a line feed,
  a vertical tab, a form feed, a carriage return, a space, a next-line character and a
  no-break space, and refuses the four separators U+001C to U+001F that \<open>str.strip\<close>
  drops as well. A number of more than 4300 digits (underscores not counted, leading
  zeros counted) is refused: the default bound of Python 3.11 on the conversion. The
  same bound on \<open>str(n)\<close> is not modelled: \<open>str\<close> is only applied to 64-bit keys and to
  part numbers, which a loop counts up from one.
\<close>

definition py_isspace :: "char \<Rightarrow> bool" where
  "py_isspace c = (c \<in> {CHR 0x09, CHR 0x0A, CHR 0x0B, CHR 0x0C, CHR 0x0D, CHR 0x1C, CHR 0x1D,
                          CHR 0x1E, CHR 0x1F, CHR 0x20, CHR 0x85, CHR 0xA0})"

definition py_strip :: "string \<Rightarrow> string" where
  "py_strip s = rev (dropWhile py_isspace (rev (dropWhile py_isspace s)))"

definition int_isspace :: "char \<Rightarrow> bool" where
  "int_isspace c = (c \<in> {CHR 0x09, CHR 0x0A, CHR 0x0B, CHR 0x0C, CHR 0x0D, CHR 0x20, CHR 0x85, CHR 0xA0})"

definition int_strip :: "string \<Rightarrow> string" where
  "int_strip s = rev (dropWhile int_isspace (rev (dropWhile int_isspace s)))"

definition max_str_digits :: nat where
  "max_str_digits = 4300"

definition digit_val :: "char \<Rightarrow> nat option" where
  "digit_val c = map_of [(CHR ''0'', 0), (CHR ''1'', 1), (CHR ''2'', 2), (CHR ''3'', 3), (CHR ''4'', 4),
                         (CHR ''5'', 5), (CHR ''6'', 6), (CHR ''7'', 7), (CHR ''8'', 8), (CHR ''9'', 9)] c"

fun int_digits :: "nat \<Rightarrow> string \<Rightarrow> nat option" where
  "int_digits acc [] = Some acc"
| "int_digits acc [c] = (case digit_val c of None \<Rightarrow> None | Some v \<Rightarrow> Some (10 * acc + v))"
| "int_digits acc (c # d # cs) =
     (if c = CHR ''_''
      then (case digit_val d of None \<Rightarrow> None | Some v \<Rightarrow> int_digits (10 * acc + v) cs)
      else (case digit_val c of None \<Rightarrow> None | Some v \<Rightarrow> int_digits (10 * acc + v) (d # cs)))"

definition int_body :: "string \<Rightarrow> nat option" where
  "int_body s =
     (if max_str_digits < length (filter (\<lambda>c. c \<noteq> CHR ''_'') s) then None
      else (case s of
              [] \<Rightarrow> None
            | c # cs \<Rightarrow> (case digit_val c of None \<Rightarrow> None | Some v \<Rightarrow> int_digits v cs)))"

definition py_int :: "string \<Rightarrow> int option" where
  "py_int s =
     (case int_strip s of
        [] \<Rightarrow> None
      | c # cs \<Rightarrow>
          if c = CHR ''-'' then map_option (\<lambda>n. - int n) (int_body cs)
          else if c = CHR ''+'' then map_option int (int_body cs)
          else map_option int (int_body (c # cs)))"

text \<open>Two notions for the proofs: a decimal digit, and one step of reading a number.\<close>

definition is_digit :: "char \<Rightarrow> bool" where
  "is_digit c = (digit_val c \<noteq> None)"

definition dec_step :: "nat \<Rightarrow> char \<Rightarrow> nat" where
  "dec_step a c = 10 * a + the (digit_val c)"

text \<open>
  \<open>str.splitlines()\<close>: a line ends at a line feed, a carriage return (a carriage return
  and a line feed together count once), a vertical tab, a form feed, a file, group or
  record separator, or a next-line character; the line ends are dropped, and a text that
  ends with a line end has no empty last line. The first argument is the line read so
  far, reversed.
\<close>

definition is_linebreak :: "char \<Rightarrow> bool" where
  "is_linebreak c = (c \<in> {CHR 0x0A, CHR 0x0D, CHR 0x0B, CHR 0x0C, CHR 0x1C, CHR 0x1D, CHR 0x1E, CHR 0x85})"

fun splitlines_from :: "string \<Rightarrow> string \<Rightarrow> string list" where
  "splitlines_from cur [] = (if cur = [] then [] else [rev cur])"
| "splitlines_from cur [c] = (if is_linebreak c then [rev cur] else [rev (c # cur)])"
| "splitlines_from cur (c # d # cs) =
     (if c = CHR 0x0D \<and> d = CHR 0x0A then rev cur # splitlines_from [] cs
      else if is_linebreak c then rev cur # splitlines_from [] (d # cs)
      else splitlines_from (c # cur) (d # cs))"

definition splitlines :: "string \<Rightarrow> string list" where
  "splitlines s = splitlines_from [] s"

text \<open>\<open>sep.join(xs)\<close>.\<close>

fun py_join :: "string \<Rightarrow> string list \<Rightarrow> string" where
  "py_join sep [] = []"
| "py_join sep [x] = x"
| "py_join sep (x # y # ys) = x @ sep @ py_join sep (y # ys)"

text \<open>
  \<open>s.replace(old, new)\<close>: every occurrence of \<open>old\<close>, found from left to right without
  overlap, becomes \<open>new\<close>; an empty \<open>old\<close> matches before every character and at the end.
  \<open>s.split(sep)\<close> for a separator of one character: the fields between the separators,
  empty fields included. \<open>sub in s\<close>: \<open>sub\<close> occurs in \<open>s\<close>.
\<close>

fun py_replace :: "string \<Rightarrow> string \<Rightarrow> string \<Rightarrow> string" where
  "py_replace old new [] = (if old = [] then new else [])"
| "py_replace old new (c # cs) =
     (if old = [] then new @ c # py_replace old new cs
      else if take (length old) (c # cs) = old
      then new @ py_replace old new (drop (length old) (c # cs))
      else c # py_replace old new cs)"

fun py_split :: "char \<Rightarrow> string \<Rightarrow> string list" where
  "py_split sep [] = [[]]"
| "py_split sep (c # cs) =
     (if c = sep then [] # py_split sep cs
      else (case py_split sep cs of [] \<Rightarrow> [[c]] | w # ws \<Rightarrow> (c # w) # ws))"

fun py_contains :: "string \<Rightarrow> string \<Rightarrow> bool" where
  "py_contains sub [] = (sub = [])"
| "py_contains sub (c # cs) = (take (length sub) (c # cs) = sub \<or> py_contains sub cs)"

text \<open>
  \<open>xs[a:b]\<close>: a negative bound counts from the end, and every bound is clamped to the
  list. \<open>range(n)\<close> is empty for \<open>n \<le> 0\<close>.
\<close>

definition py_index :: "nat \<Rightarrow> int \<Rightarrow> nat" where
  "py_index n a = nat (min (int n) (max 0 (if a < 0 then a + int n else a)))"

definition py_slice :: "'a list \<Rightarrow> int \<Rightarrow> int \<Rightarrow> 'a list" where
  "py_slice xs a b =
     (let lo = py_index (length xs) a; hi = py_index (length xs) b
      in take (hi - lo) (drop lo xs))"

definition py_range :: "int \<Rightarrow> int list" where
  "py_range n = map int [0..<nat n]"

subsection \<open>Files\<close>

type_synonym path = "string list"

record fs =
  files :: "path \<rightharpoonup> string"
  dirs :: "path set"

text \<open>
  \<open>p.mkdir(exist_ok=True)\<close>: nothing to do when the directory is there; a file of that
  name, or a missing parent directory, is an error.
\<close>

definition mkdir_exist_ok :: "path \<Rightarrow> fs \<Rightarrow> error + fs" where
  "mkdir_exist_ok p s =
     (if p \<in> dirs s then Inr s
      else if p \<in> dom (files s) then Inl FileExistsError
      else if butlast p \<noteq> [] \<and> butlast p \<notin> dirs s then Inl FileNotFoundError
      else Inr (s\<lparr>dirs := insert p (dirs s)\<rparr>))"

definition path_exists :: "path \<Rightarrow> fs \<Rightarrow> bool" where
  "path_exists p s = (p \<in> dom (files s) \<or> p \<in> dirs s)"

definition read_text :: "path \<Rightarrow> fs \<Rightarrow> error + string" where
  "read_text p s =
     (case files s p of
        Some t \<Rightarrow> Inr t
      | None \<Rightarrow> if p \<in> dirs s then Inl IsADirectoryError else Inl FileNotFoundError)"

text \<open>
  \<open>p.write_text(t)\<close> replaces the text of the file. The notebook writes only into a
  directory it has just created; a failing write is outside the model.
\<close>

definition write_text :: "path \<Rightarrow> string \<Rightarrow> fs \<Rightarrow> fs" where
  "write_text p t s = s\<lparr>files := (files s)(p \<mapsto> t)\<rparr>"

subsection \<open>Cell 5: splitting the request file into parts\<close>

definition jsonl_path :: path where
  "jsonl_path = [''int_data'', ''batch_input_claims_demo.jsonl'']"

definition part_dir :: path where
  "part_dir = [''int_data'', ''batch_parts_demo'']"

text \<open>The path \<open>part_dir / f"claims_part{i+1}.jsonl"\<close>.\<close>

definition part_path :: "int \<Rightarrow> path" where
  "part_path i = part_dir @ [''claims_part'' @ py_str (i + 1) @ ''.jsonl'']"

text \<open>The slice \<open>lines[i*chunk:(i+1)*chunk]\<close> that the loop writes as part \<open>i + 1\<close>.\<close>

definition chunk_slice :: "string list \<Rightarrow> int \<Rightarrow> int \<Rightarrow> string list" where
  "chunk_slice lines chunk i = py_slice lines (i * chunk) ((i + 1) * chunk)"

text \<open>The body of \<open>for i in range(NUM_PARTS)\<close>, over the indices still to come.\<close>

fun write_parts :: "string list \<Rightarrow> int \<Rightarrow> int list \<Rightarrow> path list \<times> fs \<Rightarrow> path list \<times> fs" where
  "write_parts lines chunk [] acc = acc"
| "write_parts lines chunk (i # is) (part_paths, s) =
     (let p = part_path i
      in write_parts lines chunk is
           (part_paths @ [p], write_text p (py_join [CHR 0x0A] (chunk_slice lines chunk i)) s))"

text \<open>
  The cell, for any value of \<open>NUM_PARTS\<close>. With one part the request file itself is the
  part and is not read. Otherwise the lines are cut into windows of
  \<open>len(lines) // NUM_PARTS + 1\<close> lines; \<open>//\<close> rounds down, as \<open>div\<close> does, and fails on
  zero.
\<close>

definition chunker :: "int \<Rightarrow> fs \<Rightarrow> error + (path list \<times> fs)" where
  "chunker NUM_PARTS s0 =
     (case mkdir_exist_ok part_dir s0 of
        Inl e \<Rightarrow> Inl e
      | Inr s \<Rightarrow>
          if NUM_PARTS = 1 then Inr ([jsonl_path], s)
          else (case read_text jsonl_path s of
                  Inl e \<Rightarrow> Inl e
                | Inr text \<Rightarrow>
                    let lines = splitlines text in
                    if NUM_PARTS = 0 then Inl ZeroDivisionError
                    else let chunk = int (length lines) div NUM_PARTS + 1
                         in Inr (write_parts lines chunk (py_range NUM_PARTS) ([], s))))"

subsection \<open>JSON values\<close>

text \<open>
  What \<open>json.loads\<close> returns: \<open>None\<close>, a boolean, an integer, a string, a list or a
  dict, the dict as the list of its items, every key once. Floats are outside the model.
  \<open>json.loads\<close>
  itself is a parameter of the model: a function that returns \<open>None\<close> where the library
  raises \<open>JSONDecodeError\<close>.
\<close>

datatype json =
    JNull
  | JBool bool
  | JInt int
  | JStr string
  | JArr "json list"
  | JObj "(string \<times> json) list"

type_synonym loads = "string \<Rightarrow> json option"

text \<open>
  Subscripts: \<open>x[k]\<close> for a string \<open>k\<close> and \<open>x[0]\<close>. A dict without the key raises
  \<open>KeyError\<close>, an empty list or string \<open>IndexError\<close>, and a value of another type
  \<open>TypeError\<close>.
\<close>

fun json_get :: "json \<Rightarrow> string \<Rightarrow> error + json" where
  "json_get (JObj kvs) k = (case map_of kvs k of None \<Rightarrow> Inl KeyError | Some v \<Rightarrow> Inr v)"
| "json_get x k = Inl TypeError"

fun json_at0 :: "json \<Rightarrow> error + json" where
  "json_at0 (JArr xs) = (case xs of [] \<Rightarrow> Inl IndexError | x # _ \<Rightarrow> Inr x)"
| "json_at0 (JStr t) = (case t of [] \<Rightarrow> Inl IndexError | c # _ \<Rightarrow> Inr (JStr [c]))"
| "json_at0 (JObj kvs) = Inl KeyError"
| "json_at0 x = Inl TypeError"

text \<open>\<open>{**d, **kvs}\<close>: a key that is there keeps its place and takes the new value.\<close>

definition dict_merge :: "(string \<times> json) list \<Rightarrow> (string \<times> json) list \<Rightarrow> (string \<times> json) list" where
  "dict_merge d kvs = foldl (\<lambda>acc (k, v). AList.update k v acc) d kvs"

subsection \<open>Cell 1: the API key\<close>

definition key_file :: path where
  "key_file = [''key'', ''openai_key.txt'']"

definition key_name :: string where
  "key_name = ''OPENAI_API_KEY''"

text \<open>The client that \<open>OpenAI()\<close> builds, with the key it takes from the environment.\<close>

datatype client = OpenAI string

text \<open>\<open>os.environ[k] = v\<close>: a value with a null character is a \<open>ValueError\<close>.\<close>

definition putenv :: "string \<Rightarrow> string \<Rightarrow> (string \<rightharpoonup> string) \<Rightarrow> error + (string \<rightharpoonup> string)" where
  "putenv k v environ = (if CHR 0x00 \<in> set v then Inl ValueError else Inr (environ(k \<mapsto> v)))"

text \<open>
  The cell: the key file is read only when the variable is not set at all; then an
  unset or empty variable raises; only after that is the client built.
\<close>

definition api_key_cell :: "(string \<rightharpoonup> string) \<Rightarrow> fs \<Rightarrow> error + ((string \<rightharpoonup> string) \<times> client)" where
  "api_key_cell environ s =
     bind_err
       (if environ key_name = None \<and> path_exists key_file s
        then bind_err (read_text key_file s) (\<lambda>t. putenv key_name (py_strip t) environ)
        else Inr environ)
       (\<lambda>environ'.
          case environ' key_name of
            None \<Rightarrow> Inl ValueError
          | Some k \<Rightarrow> if k = [] then Inl ValueError else Inr (environ', OpenAI k))"

text \<open>
  What the two sources hold: the variable provides a key when it is set to a string that
  is not empty; the file provides one when it exists and holds more than white space
  (and no null character, which no key has).
\<close>

definition env_provides :: "(string \<rightharpoonup> string) \<Rightarrow> bool" where
  "env_provides environ = (case environ key_name of None \<Rightarrow> False | Some k \<Rightarrow> k \<noteq> [])"

definition file_provides :: "fs \<Rightarrow> bool" where
  "file_provides s =
     (case files s key_file of
        None \<Rightarrow> False
      | Some t \<Rightarrow> py_strip t \<noteq> [] \<and> CHR 0x00 \<notin> set (py_strip t))"

subsection \<open>Cells 2 to 4: the requests\<close>

text \<open>
  A row of the data frame of claims. The column \<open>claim_id\<close> of the data frame holds
  integers, which pandas stores as 64-bit signed integers; the key of a row is the
  signed value \<open>sint\<close> of that word.
\<close>

record row =
  claim_id :: "64 word"
  Claim :: string
  Nutrient :: string
  Relationship :: string

definition df_claims :: "row list" where
  "df_claims =
     [\<lparr>claim_id = 1, Claim = ''Calcium contributes to normal bone health.'',
        Nutrient = ''Calcium'', Relationship = ''Bone health''\<rparr>,
      \<lparr>claim_id = 2, Claim = ''DHA intake contributes to the normal function of the brain.'',
        Nutrient = ''Docosahexaenoic acid (DHA)'', Relationship = ''Brain function''\<rparr>,
      \<lparr>claim_id = 3, Claim = ''Plant sterols have been shown to lower blood cholesterol.'',
        Nutrient = ''Plant sterols'', Relationship = ''Blood cholesterol''\<rparr>]"

definition response_format :: json where
  "response_format =
     JObj [(''type'', JStr ''json_schema''),
           (''json_schema'', JObj
              [(''name'', JStr ''claim_translation_v1''),
               (''strict'', JBool True),
               (''schema'', JObj
                  [(''type'', JStr ''object''),
                   (''properties'', JObj
                      [(''translation_claim'', JObj [(''type'', JStr ''string'')]),
                       (''translation_nutrient_substance'', JObj [(''type'', JStr ''string'')]),
                       (''translation_health_relationship'', JObj [(''type'', JStr ''string'')])]),
                   (''required'', JArr
                      [JStr ''translation_claim'',
                       JStr ''translation_nutrient_substance'',
                       JStr ''translation_health_relationship'']),
                   (''additionalProperties'', JBool False)])])]"

definition SYSTEM_PROMPT :: string where
  "SYSTEM_PROMPT =
     ''You are a certified medical-translation specialist.'' @ [CHR 0x0A] @
     ''Translate the ENGLISH text below into the target language.'' @ [CHR 0x0A] @
     ''Preserve technical terms if no local equivalent exists.'' @ [CHR 0x0A] @
     ''Return JSON strictly matching the schema keys provided.''"

text \<open>The identifier \<open>f"claim{row.claim_id}_{target_lang}"\<close>.\<close>

definition custom_id :: "int \<Rightarrow> string \<Rightarrow> string" where
  "custom_id key target_lang = ''claim'' @ py_str key @ ''_'' @ target_lang"

definition make_jsonl_line :: "row \<Rightarrow> string \<Rightarrow> json" where
  "make_jsonl_line r target_lang =
     (let user_prompt =
            ''Target language: '' @ target_lang @ [CHR 0x0A] @
            ''Claim: '' @ Claim r @ [CHR 0x0A] @
            ''Nutrient substance: '' @ Nutrient r @ [CHR 0x0A] @
            ''Health relationship: '' @ Relationship r
      in JObj [(''custom_id'', JStr (custom_id (sint (claim_id r)) target_lang)),
               (''method'', JStr ''POST''),
               (''url'', JStr ''/v1/chat/completions''),
               (''body'', JObj
                  [(''model'', JStr ''gpt-4o-mini''),
                   (''messages'', JArr
                      [JObj [(''role'', JStr ''system''), (''content'', JStr SYSTEM_PROMPT)],
                       JObj [(''role'', JStr ''user''), (''content'', JStr user_prompt)]]),
                   (''temperature'', JInt 0),
                   (''max_tokens'', JInt 512),
                   (''response_format'', response_format)])])"

definition TARGET_LANGS :: "string list" where
  "TARGET_LANGS = [''Spanish'', ''German'', ''Japanese'']"

text \<open>
  The two nested loops of cell 4, for any rows and languages: the requests in the order
  in which their lines are written.
\<close>

fun build_requests :: "row list \<Rightarrow> string list \<Rightarrow> json list" where
  "build_requests [] langs = []"
| "build_requests (r # rows) langs = map (make_jsonl_line r) langs @ build_requests rows langs"

subsection \<open>Cell 8: reading the output of a batch\<close>

text \<open>
  The identifier taken apart: \<open>claim_id, lang = cid.replace("claim","").split("_")\<close>, which
  needs exactly two fields, and then \<open>int(claim_id)\<close>.
\<close>

definition decompose :: "string \<Rightarrow> error + (int \<times> string)" where
  "decompose cid =
     (case py_split CHR ''_'' (py_replace ''claim'' [] cid) of
        [a, lang] \<Rightarrow> (case py_int a of None \<Rightarrow> Inl ValueError | Some n \<Rightarrow> Inr (n, lang))
      | _ \<Rightarrow> Inl ValueError)"

text \<open>
  One turn of the loop of \<open>parse_batch_file\<close>: the row of one line, or the error raised.
  \<open>line_custom_id\<close> is \<open>blob["custom_id"]\<close> and \<open>line_content\<close> is
  \<open>blob["response"]["body"]["choices"][0]["message"]["content"]\<close>.
\<close>

definition line_custom_id :: "json \<Rightarrow> error + json" where
  "line_custom_id blob = json_get blob ''custom_id''"

definition line_content :: "json \<Rightarrow> error + json" where
  "line_content blob =
     bind_err (json_get blob ''response'') (\<lambda>r.
     bind_err (json_get r ''body'') (\<lambda>b.
     bind_err (json_get b ''choices'') (\<lambda>cs.
     bind_err (json_at0 cs) (\<lambda>c.
     bind_err (json_get c ''message'') (\<lambda>m.
     json_get m ''content'')))))"

definition parse_line :: "loads \<Rightarrow> string \<Rightarrow> error + (string \<times> json) list" where
  "parse_line loads line =
     (case loads line of
        None \<Rightarrow> Inl JSONDecodeError
      | Some blob \<Rightarrow>
          bind_err (line_custom_id blob) (\<lambda>cid.
          bind_err (line_content blob) (\<lambda>content.
          bind_err (case content of
                      JStr t \<Rightarrow> (case loads t of None \<Rightarrow> Inl JSONDecodeError | Some p \<Rightarrow> Inr p)
                    | _ \<Rightarrow> Inl TypeError) (\<lambda>payload.
          bind_err (case cid of JStr c \<Rightarrow> decompose c | _ \<Rightarrow> Inl AttributeError) (\<lambda>(n, lang).
          (case payload of
             JObj kvs \<Rightarrow> Inr (dict_merge [(''claim_id'', JInt n), (''language'', JStr lang)] kvs)
           | _ \<Rightarrow> Inl TypeError))))))"

text \<open>The loop over the lines, with the rows collected so far; a data frame is its rows.\<close>

type_synonym table = "(string \<times> json) list list"

fun parse_lines :: "loads \<Rightarrow> string list \<Rightarrow> table \<Rightarrow> error + table" where
  "parse_lines loads [] rows = Inr rows"
| "parse_lines loads (line # lines) rows =
     (case parse_line loads line of
        Inl e \<Rightarrow> Inl e
      | Inr r \<Rightarrow> parse_lines loads lines (rows @ [r]))"

definition parse_batch_file :: "loads \<Rightarrow> path \<Rightarrow> fs \<Rightarrow> error + table" where
  "parse_batch_file loads p s =
     bind_err (read_text p s) (\<lambda>text. parse_lines loads (splitlines text) [])"

text \<open>
  Two kinds of line that the loop cannot read. An identifier is bad when, with every
  \<open>claim\<close> removed, it does not split at \<open>_\<close> into exactly two fields of which the
  first reads as an integer. A line is bad when it is a JSON value whose identifier is a
  bad string, or whose message content is a string that is not JSON.
\<close>

definition bad_id :: "string \<Rightarrow> bool" where
  "bad_id cid =
     (case py_split CHR ''_'' (py_replace ''claim'' [] cid) of
        [a, lang] \<Rightarrow> py_int a = None
      | _ \<Rightarrow> True)"

definition bad_line :: "loads \<Rightarrow> string \<Rightarrow> bool" where
  "bad_line loads line =
     (case loads line of
        None \<Rightarrow> False
      | Some blob \<Rightarrow>
          (case line_custom_id blob of Inr (JStr cid) \<Rightarrow> bad_id cid | _ \<Rightarrow> False) \<or>
          (case line_content blob of Inr (JStr c) \<Rightarrow> loads c = None | _ \<Rightarrow> False))"

text \<open>
  The batch service, as the notebook sees it: the batch a query returns, and the text
  of an output file.
\<close>

record batch =
  status :: string
  output_file_id :: "string option"

record service =
  retrieve :: "string \<Rightarrow> batch"
  content :: "string \<Rightarrow> string"

definition out_dir :: path where
  "out_dir = [''int_data'', ''batch_out_demo'']"

text \<open>
  \<open>download_output\<close>: \<open>None\<close> for a batch that is not completed (the line it prints
  then is left out); the client refuses a missing file id with a \<open>ValueError\<close>.
\<close>

definition download_output :: "service \<Rightarrow> string \<Rightarrow> fs \<Rightarrow> error + (path option \<times> fs)" where
  "download_output svc batch_id s0 =
     bind_err (mkdir_exist_ok out_dir s0) (\<lambda>s.
       let st = retrieve svc batch_id in
       if status st \<noteq> ''completed'' then Inr (None, s)
       else let out_path = out_dir @ [batch_id @ ''.jsonl''] in
            (case output_file_id st of
               None \<Rightarrow> Inl ValueError
             | Some fid \<Rightarrow> Inr (Some out_path, write_text out_path (content svc fid) s)))"

subsection \<open>Cell 10 (B): polling\<close>

text \<open>
  A Python set of batch ids is a list without repetition; the loop over
  \<open>list(PENDING)\<close> takes the ids in the order of that list (Python fixes no order, and
  every id is handled by itself; \<open>PENDING.remove\<close> always finds the id it is given).
  What is printed is kept as a list of events. The
  status that a query returns may change from one query to the next: \<open>query r bid\<close> is
  the status returned for \<open>bid\<close> in round \<open>r\<close> of the loop.
\<close>

datatype event =
    PollingStart nat
  | Progress nat nat nat
  | AllResolved

record poll_state =
  PENDING :: "string list"
  COMPLETED :: "string list"
  FAILED :: "string list"
  out :: "event list"

definition poll_one :: "(nat \<Rightarrow> string \<Rightarrow> string) \<Rightarrow> nat \<Rightarrow> string \<Rightarrow> poll_state \<Rightarrow> poll_state" where
  "poll_one query r bid s =
     (let st = query r bid in
      if st = ''completed''
      then s\<lparr>COMPLETED := List.insert bid (COMPLETED s), PENDING := removeAll bid (PENDING s)\<rparr>
      else if st = ''failed''
      then s\<lparr>FAILED := List.insert bid (FAILED s), PENDING := removeAll bid (PENDING s)\<rparr>
      else s)"

definition poll_round :: "(nat \<Rightarrow> string \<Rightarrow> string) \<Rightarrow> nat \<Rightarrow> poll_state \<Rightarrow> poll_state" where
  "poll_round query r s =
     (let s' = fold (poll_one query r) (PENDING s) s
      in s'\<lparr>out := out s' @ [Progress (length (COMPLETED s')) (length (FAILED s')) (length (PENDING s'))]\<rparr>)"

text \<open>\<open>while PENDING:\<close> may run forever: a run that never ends is \<open>None\<close>.\<close>

partial_function (option) poll_loop :: "(nat \<Rightarrow> string \<Rightarrow> string) \<Rightarrow> nat \<Rightarrow> poll_state \<Rightarrow> poll_state option" where
  "poll_loop query r s =
     (if PENDING s \<noteq> [] then poll_loop query (Suc r) (poll_round query r s) else Some s)"

definition poll_init :: "string list \<Rightarrow> poll_state" where
  "poll_init batch_ids =
     \<lparr>PENDING = remdups batch_ids, COMPLETED = [], FAILED = [],
      out = [PollingStart (length (remdups batch_ids))]\<rparr>"

definition poll_cell :: "(nat \<Rightarrow> string \<Rightarrow> string) \<Rightarrow> string list \<Rightarrow> poll_state option" where
  "poll_cell query batch_ids =
     map_option (\<lambda>s. s\<lparr>out := out s @ [AllResolved]\<rparr>) (poll_loop query 0 (poll_init batch_ids))"

text \<open>The state after \<open>n\<close> more rounds, the first of them round \<open>r\<close>.\<close>

fun rounds :: "(nat \<Rightarrow> string \<Rightarrow> string) \<Rightarrow> nat \<Rightarrow> nat \<Rightarrow> poll_state \<Rightarrow> poll_state" where
  "rounds query r 0 s = s"
| "rounds query r (Suc n) s = rounds query (Suc r) n (poll_round query r s)"

text \<open>A status after which the loop lets a batch go.\<close>

definition terminal :: "string \<Rightarrow> bool" where
  "terminal st = (st = ''completed'' \<or> st = ''failed'')"

subsection \<open>Cell 10 (C): download and parse every completed batch\<close>

fun download_all :: "service \<Rightarrow> loads \<Rightarrow> string list \<Rightarrow> table list \<times> fs \<Rightarrow> error + (table list \<times> fs)" where
  "download_all svc loads [] acc = Inr acc"
| "download_all svc loads (bid # bids) (all_tables, s) =
     (case download_output svc bid s of
        Inl e \<Rightarrow> Inl e
      | Inr (None, s') \<Rightarrow> download_all svc loads bids (all_tables, s')
      | Inr (Some out_path, s') \<Rightarrow>
          (case parse_batch_file loads out_path s' of
             Inl e \<Rightarrow> Inl e
           | Inr t \<Rightarrow> download_all svc loads bids (all_tables @ [t], s')))"

text \<open>
  The cell: the tables of the completed batches, then the check that there is one, then
  \<open>pd.concat\<close>, which puts the rows of the tables one after the other.
\<close>

definition collect_cell :: "service \<Rightarrow> loads \<Rightarrow> string list \<Rightarrow> fs \<Rightarrow> error + (table \<times> fs)" where
  "collect_cell svc loads completed s =
     bind_err (download_all svc loads completed ([], s)) (\<lambda>(all_tables, s').
       if all_tables = [] then Inl ValueError else Inr (concat all_tables, s'))"

subsection \<open>Sample inputs\<close>

text \<open>
  A file system to run the cell on: the request file holds eight one-letter lines, and
  the directory \<open>int_data\<close> exists.
\<close>

definition demo_fs :: fs where
  "demo_fs = \<lparr>files = [jsonl_path \<mapsto> ''a\<newline>b\<newline>c\<newline>d\<newline>e\<newline>f\<newline>g\<newline>h\<newline>''], dirs = {[''int_data'']}\<rparr>"

text \<open>Two different rows with the same key.\<close>

definition dup_rows :: "row list" where
  "dup_rows =
     [\<lparr>claim_id = 1, Claim = ''Calcium contributes to normal bone health.'',
        Nutrient = ''Calcium'', Relationship = ''Bone health''\<rparr>,
      \<lparr>claim_id = 1, Claim = ''Plant sterols have been shown to lower blood cholesterol.'',
        Nutrient = ''Plant sterols'', Relationship = ''Blood cholesterol''\<rparr>]"

text \<open>
  A decoder and an output file to run the parser on. The decoder knows four texts: a
  line with a good identifier, a line whose identifier has one separator too many, a
  line whose payload is not JSON, and the payload of the first two.
\<close>

definition response_blob :: "string \<Rightarrow> string \<Rightarrow> json" where
  "response_blob cid c =
     JObj [(''custom_id'', JStr cid),
           (''response'', JObj [(''body'', JObj [(''choices'', JArr
              [JObj [(''message'', JObj [(''content'', JStr c)])]])])])]"

definition demo_loads :: loads where
  "demo_loads =
     map_of [(''good line'', response_blob ''claim1_Spanish'' ''payload''),
             (''bad id'', response_blob ''claim_1_Spanish'' ''payload''),
             (''bad payload'', response_blob ''claim2_German'' ''not json''),
             (''payload'', JObj [(''translation_claim'', JStr ''El calcio'')])]"

definition demo_out :: fs where
  "demo_out = \<lparr>files = [out_dir @ [''batch_1.jsonl''] \<mapsto> ''good line\<newline>bad id\<newline>''],
               dirs = {[''int_data''], out_dir}\<rparr>"

text \<open>
  A run of the poller: two batches, of which the first is answered with \<open>completed\<close>
  from round 1 on and the second with \<open>failed\<close> from round 2 on; the state the cell
  leaves; a service that holds an output file for the first batch only, and the same
  service with an output file for the second batch too.
\<close>

definition demo_query :: "nat \<Rightarrow> string \<Rightarrow> string" where
  "demo_query r bid =
     (if bid = ''batch_1'' then (if 1 \<le> r then ''completed'' else ''in_progress'')
      else if bid = ''batch_2'' then (if 2 \<le> r then ''failed'' else ''validating'')
      else ''expired'')"

definition demo_ids :: "string list" where
  "demo_ids = [''batch_1'', ''batch_2'']"

definition demo_polled :: poll_state where
  "demo_polled =
     \<lparr>PENDING = [], COMPLETED = [''batch_1''], FAILED = [''batch_2''],
      out = [PollingStart 2, Progress 0 0 2, Progress 1 0 1, Progress 1 1 0, AllResolved]\<rparr>"

definition demo_svc :: service where
  "demo_svc =
     \<lparr>retrieve = (\<lambda>bid. if bid = ''batch_1''
                         then \<lparr>status = ''completed'', output_file_id = Some ''file_1''\<rparr>
                         else \<lparr>status = ''failed'', output_file_id = None\<rparr>),
      content = (\<lambda>fid. ''good line\<newline>'')\<rparr>"

definition demo_svc_other :: service where
  "demo_svc_other =
     demo_svc\<lparr>retrieve := (retrieve demo_svc)
       (''batch_2'' := \<lparr>status = ''completed'', output_file_id = Some ''file_2''\<rparr>)\<rparr>"

text \<open>Two file systems for the first cell: with a key file, and with nothing.\<close>

definition demo_key_fs :: fs where
  "demo_key_fs = \<lparr>files = [key_file \<mapsto> ''sk-demo\<newline>''], dirs = {[''key'']}\<rparr>"

definition demo_nokey_fs :: fs where
  "demo_nokey_fs = \<lparr>files = Map.empty, dirs = {}\<rparr>"

section \<open>Properties\<close>

subsection \<open>Printing and reading integers\<close>

lemma digit_val_digit_char: "d < 10 \<Longrightarrow> digit_val (digit_char d) = Some d"
  by (auto simp: eval_nat_numeral less_Suc_eq digit_val_def digit_char_def)

lemma is_digit_props: "is_digit c \<Longrightarrow> c \<noteq> CHR ''_'' \<and> c \<noteq> CHR ''-'' \<and> c \<noteq> CHR ''+'' \<and> \<not> int_isspace c \<and> c \<noteq> CHR ''c''"
  by (auto simp: is_digit_def digit_val_def int_isspace_def split: if_splits)

lemma str_nat_digits: "\<forall>c \<in> set (str_nat n). is_digit c"
proof (induction n rule: str_nat.induct)
  case (1 n)
  show ?case
  proof (cases "n < 10")
    case True
    then show ?thesis
      by (subst str_nat.simps) (simp add: is_digit_def digit_val_digit_char)
  next
    case False
    with 1 show ?thesis
      by (subst str_nat.simps) (simp add: is_digit_def digit_val_digit_char)
  qed
qed

lemma str_nat_nonempty: "str_nat n \<noteq> []"
  by (subst str_nat.simps) simp

lemma int_digits_all_digits:
  "\<forall>c \<in> set xs. is_digit c \<Longrightarrow> int_digits acc xs = Some (foldl dec_step acc xs)"
proof (induction acc xs rule: int_digits.induct)
  case (1 acc)
  then show ?case by simp
next
  case (2 acc c)
  then show ?case by (auto simp: is_digit_def dec_step_def)
next
  case (3 acc c d cs)
  then have "c \<noteq> CHR ''_''" using is_digit_props by auto
  with 3 show ?case by (auto simp: is_digit_def dec_step_def)
qed

lemma foldl_str_nat: "foldl dec_step 0 (str_nat n) = n"
proof (induction n rule: str_nat.induct)
  case (1 n)
  show ?case
  proof (cases "n < 10")
    case True
    then show ?thesis
      by (subst str_nat.simps) (simp add: dec_step_def digit_val_digit_char)
  next
    case False
    have "foldl dec_step 0 (str_nat n) =
          foldl dec_step 0 (str_nat (n div 10) @ [digit_char (n mod 10)])"
      using False by (subst str_nat.simps) simp
    also have "\<dots> = dec_step (foldl dec_step 0 (str_nat (n div 10))) (digit_char (n mod 10))"
      by simp
    also have "\<dots> = dec_step (n div 10) (digit_char (n mod 10))"
      using 1 False by simp
    also have "\<dots> = n"
      by (simp add: dec_step_def digit_val_digit_char)
    finally show ?thesis .
  qed
qed

lemma str_nat_length: "n < 10 ^ k \<Longrightarrow> 0 < k \<Longrightarrow> length (str_nat n) \<le> k"
proof (induction n arbitrary: k rule: str_nat.induct)
  case (1 n)
  show ?case
  proof (cases "n < 10")
    case True
    with 1(3) show ?thesis
      by (subst str_nat.simps) simp
  next
    case False
    obtain j where k: "k = Suc j"
      using 1(3) by (cases k) auto
    have "0 < j"
    proof (rule ccontr)
      assume "\<not> 0 < j"
      with k 1(2) False show False by simp
    qed
    moreover have "n div 10 < 10 ^ j"
      using 1(2) k by (simp add: less_mult_imp_div_less mult.commute)
    ultimately have "length (str_nat (n div 10)) \<le> j"
      using 1(1) False by simp
    then show ?thesis
      using False k by (subst str_nat.simps) simp
  qed
qed

lemma int_body_str_nat:
  assumes "length (str_nat n) \<le> max_str_digits"
  shows "int_body (str_nat n) = Some n"
proof -
  obtain c cs where eq: "str_nat n = c # cs"
    using str_nat_nonempty by (cases "str_nat n") auto
  have dig: "\<forall>x \<in> set (c # cs). is_digit x"
    using str_nat_digits [of n] eq by simp
  then have "filter (\<lambda>x. x \<noteq> CHR ''_'') (c # cs) = c # cs"
    using is_digit_props by (intro filter_True) blast
  then have len: "\<not> max_str_digits < length (filter (\<lambda>x. x \<noteq> CHR ''_'') (c # cs))"
    using assms eq by simp
  from dig obtain v where v: "digit_val c = Some v" by (auto simp: is_digit_def)
  have "int_digits v cs = Some (foldl dec_step v cs)"
    using dig by (simp add: int_digits_all_digits)
  moreover have "foldl dec_step 0 (c # cs) = foldl dec_step v cs"
    using v by (simp add: dec_step_def)
  ultimately show ?thesis
    using foldl_str_nat [of n] eq v len by (simp add: int_body_def del: filter.simps)
qed

lemma int_strip_id:
  assumes "s \<noteq> []" "\<not> int_isspace (hd s)" "\<not> int_isspace (last s)"
  shows "int_strip s = s"
proof -
  have a: "dropWhile int_isspace s = s"
    using assms by (cases s) auto
  have "dropWhile int_isspace (rev s) = rev s"
    using assms by (cases "rev s") (auto simp: last_rev hd_rev dest!: arg_cong [where f=hd])
  with a show ?thesis by (simp add: int_strip_def)
qed

lemma py_int_py_str:
  assumes "length (str_nat (nat \<bar>i\<bar>)) \<le> max_str_digits"
  shows "py_int (py_str i) = Some i"
proof (cases "i < 0")
  case True
  let ?s = "CHR ''-'' # str_nat (nat (- i))"
  have "last ?s \<in> set (str_nat (nat (- i)))"
    using str_nat_nonempty by simp
  then have "\<not> int_isspace (last ?s)"
    using str_nat_digits is_digit_props by blast
  moreover have "\<not> int_isspace (hd ?s)" by (simp add: int_isspace_def)
  ultimately have "int_strip ?s = ?s" by (intro int_strip_id) simp_all
  moreover have "int_body (str_nat (nat (- i))) = Some (nat (- i))"
    using assms True by (intro int_body_str_nat) (simp add: abs_if)
  ultimately show ?thesis
    using True by (simp add: py_int_def py_str_def)
next
  case False
  let ?s = "str_nat (nat i)"
  have ne: "?s \<noteq> []" by (rule str_nat_nonempty)
  then have "hd ?s \<in> set ?s" "last ?s \<in> set ?s" by simp_all
  then have h: "is_digit (hd ?s)" "is_digit (last ?s)"
    using str_nat_digits by blast+
  then have "int_strip ?s = ?s"
    using ne is_digit_props by (intro int_strip_id) auto
  moreover obtain c cs where eq: "?s = c # cs" using ne by (cases ?s) auto
  moreover have "c \<noteq> CHR ''-''" "c \<noteq> CHR ''+''"
    using h(1) eq is_digit_props by auto
  moreover have "int_body (str_nat (nat i)) = Some (nat i)"
    using assms False by (intro int_body_str_nat) (simp add: abs_if)
  ultimately show ?thesis
    using False by (simp add: py_int_def py_str_def)
qed

lemma str_nat_inj: "str_nat a = str_nat b \<Longrightarrow> a = b"
proof -
  assume "str_nat a = str_nat b"
  then have "foldl dec_step 0 (str_nat a) = foldl dec_step 0 (str_nat b)" by (rule arg_cong)
  then show "a = b" by (simp only: foldl_str_nat)
qed

lemma py_str_inj: "py_str a = py_str b \<Longrightarrow> a = b"
proof -
  assume eq: "py_str a = py_str b"
  have nd: "hd (str_nat n) \<noteq> CHR ''-''" for n
  proof -
    have "hd (str_nat n) \<in> set (str_nat n)"
      using str_nat_nonempty by simp
    then show ?thesis
      using str_nat_digits is_digit_props by blast
  qed
  have ne: "CHR ''-'' # xs \<noteq> str_nat n" for xs n
    using nd [of n] by (auto dest: arg_cong [where f = hd])
  show "a = b"
  proof (cases "a < 0")
    case True
    show ?thesis
    proof (cases "b < 0")
      case True
      with \<open>a < 0\<close> eq have "str_nat (nat (- a)) = str_nat (nat (- b))"
        by (simp add: py_str_def)
      then have "nat (- a) = nat (- b)" by (rule str_nat_inj)
      with True \<open>a < 0\<close> show ?thesis by simp
    next
      case False
      with True eq ne show ?thesis by (simp add: py_str_def)
    qed
  next
    case False
    show ?thesis
    proof (cases "b < 0")
      case True
      with False eq ne [of "str_nat (nat (- b))" "nat a"] show ?thesis
        by (simp add: py_str_def)
    next
      case b: False
      with False eq have "str_nat (nat a) = str_nat (nat b)"
        by (simp add: py_str_def)
      then have "nat a = nat b" by (rule str_nat_inj)
      with False b show ?thesis by simp
    qed
  qed
qed

lemma key_digits: "length (str_nat (nat \<bar>sint (k :: 64 word)\<bar>)) \<le> 19"
proof -
  have "- (2 ^ 63) \<le> sint k" "sint k < 2 ^ 63"
    using sint_ge [of k] sint_lt [of k] by simp_all
  then have "nat \<bar>sint k\<bar> < 10 ^ 19"
    by simp
  then show ?thesis
    by (rule str_nat_length) simp
qed

lemma sint_key_inj: "sint (a :: 64 word) = sint b \<Longrightarrow> a = b"
  by (simp add: signed_word_eqI)

lemma part_path_inj: "part_path a = part_path b \<Longrightarrow> a = b"
proof -
  assume "part_path a = part_path b"
  then have "py_str (a + 1) = py_str (b + 1)" by (simp add: part_path_def)
  then have "a + 1 = b + 1" by (rule py_str_inj)
  then show "a = b" by simp
qed

subsection \<open>Identifiers\<close>

lemma take_eq_hd: "old \<noteq> [] \<Longrightarrow> take (length old) (c # cs) = old \<Longrightarrow> hd old = c"
  by (cases old) auto

lemma py_replace_absent:
  "old \<noteq> [] \<Longrightarrow> \<not> py_contains old s \<Longrightarrow> py_replace old new s = s"
  by (induction s) auto

lemma py_replace_skip:
  "old \<noteq> [] \<Longrightarrow> \<forall>c \<in> set p. c \<noteq> hd old \<Longrightarrow> py_replace old new (p @ t) = p @ py_replace old new t"
proof (induction p)
  case Nil
  then show ?case by simp
next
  case (Cons c p)
  then have "take (length old) (c # p @ t) \<noteq> old"
    using take_eq_hd [of old c "p @ t"] by auto
  with Cons show ?case by simp
qed

lemma py_split_field:
  "sep \<notin> set a \<Longrightarrow> py_split sep (a @ sep # b) = a # py_split sep b"
  by (induction a) auto

lemma py_split_single: "sep \<notin> set b \<Longrightarrow> py_split sep b = [b]"
  by (induction b) auto

lemma py_str_chars: "c \<in> set (py_str i) \<Longrightarrow> is_digit c \<or> c = CHR ''-''"
  using str_nat_digits by (auto simp: py_str_def split: if_splits)

lemma py_str_no_sep: "CHR ''_'' \<notin> set (py_str i)"
  using py_str_chars [of "CHR ''_''" i] is_digit_props [of "CHR ''_''"] by auto

lemma py_str_no_c: "CHR ''c'' \<notin> set (py_str i)"
  using py_str_chars [of "CHR ''c''" i] is_digit_props [of "CHR ''c''"] by auto

lemma replace_custom_id:
  assumes "\<not> py_contains ''claim'' target_lang"
  shows "py_replace ''claim'' [] (custom_id key target_lang) = py_str key @ ''_'' @ target_lang"
proof -
  have "py_replace ''claim'' [] (custom_id key target_lang) =
        py_replace ''claim'' [] ((py_str key @ ''_'') @ target_lang)"
    by (simp add: custom_id_def)
  also have "\<dots> = (py_str key @ ''_'') @ py_replace ''claim'' [] target_lang"
    using py_str_no_c [of key] by (intro py_replace_skip) auto
  also have "\<dots> = (py_str key @ ''_'') @ target_lang"
    using assms by (simp add: py_replace_absent)
  finally show ?thesis by simp
qed

lemma custom_id_inj:
  assumes "custom_id n l = custom_id n' l'"
  shows "n = n' \<and> l = l'"
proof -
  from assms have eq: "py_str n @ CHR ''_'' # l = py_str n' @ CHR ''_'' # l'"
    by (simp add: custom_id_def)
  then have "py_split CHR ''_'' (py_str n @ CHR ''_'' # l) = py_split CHR ''_'' (py_str n' @ CHR ''_'' # l')"
    by simp
  then have "py_str n = py_str n'"
    by (simp add: py_split_field py_str_no_sep)
  with eq show ?thesis
    using py_str_inj by auto
qed

lemma build_requests_product:
  "build_requests rows langs = map (\<lambda>(r, l). make_jsonl_line r l) (List.product rows langs)"
  by (induction rows) (simp_all add: o_def)

lemma request_custom_id:
  "json_get (make_jsonl_line r l) ''custom_id'' = Inr (JStr (custom_id (sint (claim_id r)) l))"
  by (simp add: make_jsonl_line_def)

subsection \<open>The chunker\<close>

lemma mkdir_exist_ok_files: "mkdir_exist_ok p s = Inr s' \<Longrightarrow> files s' = files s"
  by (auto simp: mkdir_exist_ok_def split: if_splits)

lemma write_parts_paths:
  "fst (write_parts lines chunk is (pp, s)) = pp @ map part_path is"
  by (induction "is" arbitrary: pp s) (simp_all add: Let_def)

lemma write_parts_other:
  "p \<notin> part_path ` set is \<Longrightarrow> files (snd (write_parts lines chunk is (pp, s))) p = files s p"
  by (induction "is" arbitrary: pp s) (auto simp: Let_def write_text_def)

lemma write_parts_written:
  "distinct is \<Longrightarrow> i \<in> set is \<Longrightarrow>
   files (snd (write_parts lines chunk is (pp, s))) (part_path i) =
     Some (py_join [CHR 0x0A] (chunk_slice lines chunk i))"
proof (induction "is" arbitrary: pp s)
  case Nil
  then show ?case by simp
next
  case (Cons j js)
  show ?case
  proof (cases "i = j")
    case True
    have "part_path j \<notin> part_path ` set js"
      using Cons.prems(1) part_path_inj by auto
    then show ?thesis
      using True by (simp add: Let_def write_parts_other write_text_def)
  next
    case False
    with Cons show ?thesis by (simp add: Let_def)
  qed
qed

lemma chunk_slice_take_drop:
  "chunk_slice xs (int c) (int i) = take c (drop (i * c) xs)"
proof -
  have lo: "py_index (length xs) (int i * int c) = min (length xs) (i * c)"
    by (simp add: py_index_def nat_mult_distrib min_def flip: of_nat_mult)
  have hi: "py_index (length xs) ((int i + 1) * int c) = min (length xs) (i * c + c)"
    by (simp add: py_index_def min_def algebra_simps flip: of_nat_mult of_nat_add)
  show ?thesis
    unfolding chunk_slice_def py_slice_def Let_def lo hi
    by (cases "length xs \<le> i * c") (simp_all add: min_def)
qed

lemma concat_windows:
  "concat (map (\<lambda>i. take c (drop (i * c) xs)) [0..<k]) = take (k * c) xs"
proof (induction k)
  case 0
  then show ?case by simp
next
  case (Suc k)
  have "take (k * c) xs @ take c (drop (k * c) xs) = take (k * c + c) xs"
    by (simp add: take_add)
  with Suc show ?case by (simp add: add.commute)
qed

lemma windows_cover: "0 < (n::nat) \<Longrightarrow> m \<le> n * (m div n + 1)"
proof -
  assume "0 < n"
  then have "m mod n < n" by simp
  moreover have "m = n * (m div n) + m mod n" by simp
  ultimately have "m < n * (m div n) + n" by linarith
  then show ?thesis by simp
qed

lemma chunk_nat:
  assumes "0 < N"
  shows "int (length xs) div N + 1 = int (length xs div nat N + 1)"
  using assms by (simp add: zdiv_int)

lemma chunks_concat:
  assumes "0 < N"
  shows "concat (map (chunk_slice xs (int (length xs) div N + 1)) (py_range N)) = xs"
proof -
  let ?c = "length xs div nat N + 1"
  have c: "int (length xs) div N + 1 = int ?c"
    using assms by (rule chunk_nat)
  have le: "length xs \<le> nat N * ?c"
    using assms by (intro windows_cover) simp
  have "map (chunk_slice xs (int ?c)) (py_range N) = map (\<lambda>i. take ?c (drop (i * ?c) xs)) [0..<nat N]"
    by (simp only: py_range_def map_map o_def chunk_slice_take_drop)
  then have "concat (map (chunk_slice xs (int ?c)) (py_range N)) = take (nat N * ?c) xs"
    by (simp only: concat_windows)
  also have "\<dots> = xs"
    using le by simp
  finally show ?thesis
    unfolding c .
qed

lemma length_py_range: "length (py_range N) = nat N"
  by (simp add: py_range_def)

lemma distinct_py_range: "distinct (py_range N)"
  by (simp add: py_range_def distinct_map inj_on_def)

lemma py_range_nth: "i < nat N \<Longrightarrow> py_range N ! i = int i"
  by (simp add: py_range_def)

lemma demo_mkdir:
  "mkdir_exist_ok part_dir demo_fs = Inr (demo_fs\<lparr>dirs := insert part_dir (dirs demo_fs)\<rparr>)"
  by (simp add: mkdir_exist_ok_def demo_fs_def part_dir_def jsonl_path_def)

lemma demo_lines:
  "splitlines ''a\<newline>b\<newline>c\<newline>d\<newline>e\<newline>f\<newline>g\<newline>h\<newline>'' = [''a'', ''b'', ''c'', ''d'', ''e'', ''f'', ''g'', ''h'']"
  by (simp add: splitlines_def is_linebreak_def)

text \<open>
  C8. With \<open>NUM_PARTS = 1\<close> the only part is the request file itself, and no file is
  written: once the part directory is there, the text of every file is what it was.
\<close>

theorem chunker_one_part:
  assumes "mkdir_exist_ok part_dir s0 = Inr s"
  shows "chunker 1 s0 = Inr ([jsonl_path], s) \<and> files s = files s0"
  using assms mkdir_exist_ok_files [OF assms] by (simp add: chunker_def)

theorem chunker_one_part_witness:
  "mkdir_exist_ok part_dir demo_fs = Inr (demo_fs\<lparr>dirs := insert part_dir (dirs demo_fs)\<rparr>) \<and>
   chunker 1 demo_fs = Inr ([jsonl_path], demo_fs\<lparr>dirs := insert part_dir (dirs demo_fs)\<rparr>) \<and>
   files (demo_fs\<lparr>dirs := insert part_dir (dirs demo_fs)\<rparr>) = files demo_fs"
  using chunker_one_part [OF demo_mkdir] demo_mkdir by simp

text \<open>
  C3. For every request file and every \<open>NUM_PARTS \<ge> 1\<close> the cell returns \<open>NUM_PARTS\<close>
  parts, and there are \<open>NUM_PARTS\<close> chunks of lines whose concatenation, in order, is
  the list of lines of the request file: with one part the lines of the part (the
  request file itself) are the chunk; with more parts each part file holds its chunk,
  joined by line feeds.
\<close>

theorem chunker_partition:
  assumes "1 \<le> NUM_PARTS"
    and "mkdir_exist_ok part_dir s0 = Inr s"
    and "files s0 jsonl_path = Some text"
  shows "\<exists>part_paths s' chunks.
           chunker NUM_PARTS s0 = Inr (part_paths, s') \<and>
           length part_paths = nat NUM_PARTS \<and>
           length chunks = nat NUM_PARTS \<and>
           concat chunks = splitlines text \<and>
           (if NUM_PARTS = 1
            then map (\<lambda>p. map_option splitlines (files s' p)) part_paths = map Some chunks
            else map (files s') part_paths = map (\<lambda>c. Some (py_join [CHR 0x0A] c)) chunks)"
proof (cases "NUM_PARTS = 1")
  case True
  have "files s jsonl_path = Some text"
    using assms(2,3) mkdir_exist_ok_files by simp
  then show ?thesis
    using True assms(2)
    by (rule_tac x = "[jsonl_path]" in exI, rule_tac x = s in exI,
        rule_tac x = "[splitlines text]" in exI)
       (simp add: chunker_def)
next
  case False
  with assms(1) have pos: "0 < NUM_PARTS" "NUM_PARTS \<noteq> 0" by simp_all
  let ?lines = "splitlines text"
  let ?chunk = "int (length ?lines) div NUM_PARTS + 1"
  let ?r = "write_parts ?lines ?chunk (py_range NUM_PARTS) ([], s)"
  have rd: "read_text jsonl_path s = Inr text"
    using assms(2,3) mkdir_exist_ok_files by (simp add: read_text_def)
  have run: "chunker NUM_PARTS s0 = Inr (fst ?r, snd ?r)"
    using False pos assms(2) rd by (simp add: chunker_def Let_def)
  have paths: "fst ?r = map part_path (py_range NUM_PARTS)"
    by (simp add: write_parts_paths)
  have written: "map (files (snd ?r)) (fst ?r) =
        map (\<lambda>c. Some (py_join [CHR 0x0A] c)) (map (chunk_slice ?lines ?chunk) (py_range NUM_PARTS))"
    unfolding paths by (simp add: write_parts_written distinct_py_range)
  show ?thesis
    using False run written chunks_concat [OF pos(1), of ?lines]
    by (rule_tac x = "fst ?r" in exI, rule_tac x = "snd ?r" in exI,
        rule_tac x = "map (chunk_slice ?lines ?chunk) (py_range NUM_PARTS)" in exI)
       (simp add: paths length_py_range)
qed

theorem chunker_partition_witness:
  "(1::int) \<le> 3 \<and>
   mkdir_exist_ok part_dir demo_fs = Inr (demo_fs\<lparr>dirs := insert part_dir (dirs demo_fs)\<rparr>) \<and>
   files demo_fs jsonl_path = Some ''a\<newline>b\<newline>c\<newline>d\<newline>e\<newline>f\<newline>g\<newline>h\<newline>'' \<and>
   (\<exists>part_paths s' chunks.
      chunker 3 demo_fs = Inr (part_paths, s') \<and> length part_paths = 3 \<and> length chunks = 3 \<and>
      concat chunks = [''a'', ''b'', ''c'', ''d'', ''e'', ''f'', ''g'', ''h''] \<and>
      map (files s') part_paths = map (\<lambda>c. Some (py_join [CHR 0x0A] c)) chunks)"
proof -
  have f: "files demo_fs jsonl_path = Some ''a\<newline>b\<newline>c\<newline>d\<newline>e\<newline>f\<newline>g\<newline>h\<newline>''"
    by (simp add: demo_fs_def)
  show ?thesis
    using chunker_partition [of 3, OF _ demo_mkdir f] by (simp add: demo_lines demo_mkdir f)
qed

text \<open>
  C10. With \<open>NUM_PARTS > 1\<close> part \<open>i + 1\<close> is the window of
  \<open>len(lines) // NUM_PARTS + 1\<close> lines that starts at line \<open>i\<close> times that width. Every
  part file is written and listed, also a part whose window starts at or after the end
  of the lines: that file is empty. Eight lines in four parts give parts of three,
  three, two and no lines.
\<close>

theorem chunker_empty_parts:
  assumes "1 < NUM_PARTS"
    and "mkdir_exist_ok part_dir s0 = Inr s"
    and "files s0 jsonl_path = Some text"
    and "lines = splitlines text"
    and "chunk = length lines div nat NUM_PARTS + 1"
  shows "\<exists>part_paths s'.
           chunker NUM_PARTS s0 = Inr (part_paths, s') \<and>
           part_paths = map part_path (py_range NUM_PARTS) \<and>
           (\<forall>i < nat NUM_PARTS.
              chunk_slice lines (int (length lines) div NUM_PARTS + 1) (int i) =
                take chunk (drop (i * chunk) lines) \<and>
              files s' (part_paths ! i) =
                Some (py_join [CHR 0x0A] (take chunk (drop (i * chunk) lines))) \<and>
              (length lines \<le> i * chunk \<longrightarrow> files s' (part_paths ! i) = Some []))"
proof -
  from assms(1) have pos: "0 < NUM_PARTS" "NUM_PARTS \<noteq> 0" "NUM_PARTS \<noteq> 1" by simp_all
  let ?chunk = "int (length lines) div NUM_PARTS + 1"
  let ?r = "write_parts lines ?chunk (py_range NUM_PARTS) ([], s)"
  have c: "?chunk = int chunk"
    using chunk_nat [OF pos(1)] assms(5) by simp
  have rd: "read_text jsonl_path s = Inr text"
    using assms(2,3) mkdir_exist_ok_files by (simp add: read_text_def)
  have run: "chunker NUM_PARTS s0 = Inr (fst ?r, snd ?r)"
    using pos assms(2,4) rd by (simp add: chunker_def Let_def)
  have paths: "fst ?r = map part_path (py_range NUM_PARTS)"
    by (simp add: write_parts_paths)
  have each: "chunk_slice lines ?chunk (int i) = take chunk (drop (i * chunk) lines) \<and>
      files (snd ?r) (fst ?r ! i) = Some (py_join [CHR 0x0A] (take chunk (drop (i * chunk) lines))) \<and>
      (length lines \<le> i * chunk \<longrightarrow> files (snd ?r) (fst ?r ! i) = Some [])"
    if "i < nat NUM_PARTS" for i
  proof -
    have sl: "chunk_slice lines ?chunk (int i) = take chunk (drop (i * chunk) lines)"
      unfolding c by (rule chunk_slice_take_drop)
    have mem: "int i \<in> set (py_range NUM_PARTS)"
      using that by (simp add: py_range_def)
    have "fst ?r ! i = part_path (int i)"
      using that by (simp add: paths length_py_range py_range_nth)
    then have "files (snd ?r) (fst ?r ! i) = Some (py_join [CHR 0x0A] (chunk_slice lines ?chunk (int i)))"
      using mem by (simp add: write_parts_written distinct_py_range)
    then show ?thesis
      using sl by simp
  qed
  show ?thesis
    using run paths each by (rule_tac x = "fst ?r" in exI, rule_tac x = "snd ?r" in exI) simp
qed

theorem chunker_empty_parts_witness:
  "(1::int) < 4 \<and>
   mkdir_exist_ok part_dir demo_fs = Inr (demo_fs\<lparr>dirs := insert part_dir (dirs demo_fs)\<rparr>) \<and>
   files demo_fs jsonl_path = Some ''a\<newline>b\<newline>c\<newline>d\<newline>e\<newline>f\<newline>g\<newline>h\<newline>'' \<and>
   (\<exists>part_paths s'.
      chunker 4 demo_fs = Inr (part_paths, s') \<and>
      part_paths = map part_path [0, 1, 2, 3] \<and>
      map (files s') part_paths = [Some ''a\<newline>b\<newline>c'', Some ''d\<newline>e\<newline>f'', Some ''g\<newline>h'', Some ''''])"
proof -
  have f: "files demo_fs jsonl_path = Some ''a\<newline>b\<newline>c\<newline>d\<newline>e\<newline>f\<newline>g\<newline>h\<newline>''"
    by (simp add: demo_fs_def)
  have r: "py_range 4 = [0, 1, 2, 3]"
    by (simp add: py_range_def upt_rec)
  have a: "(\<forall>i<4. P i) = (P 0 \<and> P 1 \<and> P 2 \<and> P (3::nat))" for P
    by (auto simp: eval_nat_numeral less_Suc_eq)
  show ?thesis
    using chunker_empty_parts [of 4, OF _ demo_mkdir f demo_lines [symmetric] refl]
    by (auto simp: demo_mkdir f r a)
qed

subsection \<open>The parser\<close>

lemma bad_id_decompose: "bad_id cid \<Longrightarrow> decompose cid = Inl ValueError"
  by (auto simp: bad_id_def decompose_def split: list.splits option.splits)

lemma bad_id_iff:
  "bad_id cid \<longleftrightarrow>
     \<not> (\<exists>a lang n. py_split CHR ''_'' (py_replace ''claim'' [] cid) = [a, lang] \<and> py_int a = Some n)"
  by (auto simp: bad_id_def split: list.splits)

text \<open>
  Two identifiers that \<open>int\<close> refuses and \<open>str.strip\<close> would not give away: a unit
  separator after the number, and a number of more than 4300 digits.
\<close>

lemma bad_id_unit_separator:
  "bad_id (''claim12'' @ [CHR 0x1F] @ ''_de'') \<and>
   decompose (''claim12'' @ [CHR 0x1F] @ ''_de'') = Inl ValueError"
  by (simp add: bad_id_def decompose_def py_int_def int_strip_def int_isspace_def int_body_def
      max_str_digits_def digit_val_def)

lemma py_int_too_long:
  assumes "\<forall>c \<in> set ds. is_digit c" and "max_str_digits < length ds"
  shows "py_int ds = None"
proof -
  from assms(2) obtain c cs where eq: "ds = c # cs"
    by (cases ds) auto
  have "hd ds \<in> set ds" "last ds \<in> set ds"
    using eq by simp_all
  then have "is_digit (hd ds)" "is_digit (last ds)"
    using assms(1) by blast+
  then have "int_strip ds = ds"
    using eq is_digit_props by (intro int_strip_id) auto
  moreover have "c \<noteq> CHR ''-''" "c \<noteq> CHR ''+''"
    using assms(1) eq is_digit_props by auto
  moreover have "filter (\<lambda>x. x \<noteq> CHR ''_'') ds = ds"
    using assms(1) is_digit_props by (intro filter_True) blast
  then have "int_body ds = None"
    using assms(2) by (simp add: int_body_def)
  ultimately show ?thesis
    using eq by (simp add: py_int_def)
qed

lemma bad_id_too_long:
  assumes "\<forall>c \<in> set ds. is_digit c" and "max_str_digits < length ds"
    and "CHR ''_'' \<notin> set lang" and "\<not> py_contains ''claim'' lang"
  shows "bad_id (''claim'' @ ds @ ''_'' @ lang)"
proof -
  have c: "\<forall>x \<in> set (ds @ ''_''). x \<noteq> hd ''claim''"
    using assms(1) is_digit_props by auto
  have "py_replace ''claim'' [] (''claim'' @ ds @ ''_'' @ lang) =
        py_replace ''claim'' [] ((ds @ ''_'') @ lang)"
    by simp
  also have "\<dots> = (ds @ ''_'') @ py_replace ''claim'' [] lang"
    using c by (intro py_replace_skip) simp_all
  also have "\<dots> = ds @ CHR ''_'' # lang"
    using assms(4) by (simp add: py_replace_absent)
  finally have "py_replace ''claim'' [] (''claim'' @ ds @ ''_'' @ lang) = ds @ CHR ''_'' # lang" .
  moreover have "CHR ''_'' \<notin> set ds"
    using assms(1) is_digit_props by blast
  ultimately have "py_split CHR ''_'' (py_replace ''claim'' [] (''claim'' @ ds @ ''_'' @ lang)) = [ds, lang]"
    using assms(3) by (simp add: py_split_field py_split_single)
  then show ?thesis
    using py_int_too_long [OF assms(1,2)] by (simp add: bad_id_def)
qed

lemma bad_line_raises:
  assumes "bad_line loads line"
  shows "\<exists>e. parse_line loads line = Inl e"
proof -
  from assms obtain blob where blob: "loads line = Some blob"
    by (auto simp: bad_line_def split: option.splits)
  from assms blob consider
      (id) cid where "line_custom_id blob = Inr (JStr cid)" "bad_id cid"
    | (payload) c where "line_content blob = Inr (JStr c)" "loads c = None"
    by (auto simp: bad_line_def split: sum.splits json.splits)
  then show ?thesis
  proof cases
    case id
    then show ?thesis
      using blob bad_id_decompose [OF id(2)]
      by (auto simp: parse_line_def bind_err_def split: sum.splits json.splits option.splits)
  next
    case payload
    then show ?thesis
      using blob
      by (auto simp: parse_line_def bind_err_def split: sum.splits json.splits option.splits)
  qed
qed

lemma parse_lines_raises:
  "line \<in> set lines \<Longrightarrow> parse_line loads line = Inl e \<Longrightarrow> \<exists>e'. parse_lines loads lines rows = Inl e'"
  by (induction lines arbitrary: rows) (auto split: sum.splits)

lemma demo_out_lines: "splitlines ''good line\<newline>bad id\<newline>'' = [''good line'', ''bad id'']"
  by (simp add: splitlines_def is_linebreak_def)

subsection \<open>The claims about identifiers and the parser\<close>

text \<open>
  The round trip for any integer key that \<open>str\<close> and \<open>int\<close> convert, that is, of at most
  4300 digits; the 64-bit keys of a data frame have at most 19.
\<close>

lemma decompose_custom_id_int:
  assumes "length (str_nat (nat \<bar>key\<bar>)) \<le> max_str_digits"
    and "CHR ''_'' \<notin> set target_lang"
    and "\<not> py_contains ''claim'' target_lang"
  shows "decompose (custom_id key target_lang) = Inr (key, target_lang)"
proof -
  have "py_split CHR ''_'' (py_replace ''claim'' [] (custom_id key target_lang)) =
        [py_str key, target_lang]"
    using assms(2,3) py_str_no_sep [of key]
    by (simp add: replace_custom_id py_split_field py_split_single)
  then show ?thesis
    using py_int_py_str [OF assms(1)] by (simp add: decompose_def)
qed

text \<open>
  C1, as amended. For every row of a data frame and every target language that
  contains neither the separator \<open>_\<close> nor the text \<open>claim\<close>, the request of
  \<open>make_jsonl_line\<close> carries the identifier \<open>claim\<close> + key + \<open>_\<close> + language, the parser
  takes that identifier apart into the key and the language, and putting the two
  together again gives the identifier.
\<close>

theorem decompose_custom_id:
  assumes "CHR ''_'' \<notin> set target_lang"
    and "\<not> py_contains ''claim'' target_lang"
  shows "json_get (make_jsonl_line r target_lang) ''custom_id'' =
           Inr (JStr (custom_id (sint (claim_id r)) target_lang)) \<and>
         decompose (custom_id (sint (claim_id r)) target_lang) = Inr (sint (claim_id r), target_lang) \<and>
         map_sum id (\<lambda>(n, lang). custom_id n lang) (decompose (custom_id (sint (claim_id r)) target_lang)) =
           Inr (custom_id (sint (claim_id r)) target_lang)"
proof -
  have "length (str_nat (nat \<bar>sint (claim_id r)\<bar>)) \<le> max_str_digits"
    using key_digits [of "claim_id r"] by (simp add: max_str_digits_def)
  then have "decompose (custom_id (sint (claim_id r)) target_lang) = Inr (sint (claim_id r), target_lang)"
    using assms by (intro decompose_custom_id_int)
  then show ?thesis
    by (simp add: make_jsonl_line_def)
qed

theorem decompose_custom_id_witness:
  "CHR ''_'' \<notin> set ''Spanish'' \<and> \<not> py_contains ''claim'' ''Spanish'' \<and>
   json_get (make_jsonl_line (hd df_claims) ''Spanish'') ''custom_id'' = Inr (JStr ''claim1_Spanish'') \<and>
   decompose ''claim1_Spanish'' = Inr (1, ''Spanish'') \<and>
   custom_id 1 ''Spanish'' = ''claim1_Spanish''"
proof -
  have a: "CHR ''_'' \<notin> set ''Spanish''" by simp
  have b: "\<not> py_contains ''claim'' ''Spanish''" by simp
  have c: "custom_id 1 ''Spanish'' = ''claim1_Spanish''"
    by (simp add: custom_id_def py_str_def str_nat.simps digit_char_def)
  have d: "sint (claim_id (hd df_claims)) = 1" by (simp add: df_claims_def)
  show ?thesis
    using decompose_custom_id [OF a b, of "hd df_claims"] a b by (simp add: c d)
qed

text \<open>
  C1 as stated fails when the language contains \<open>claim\<close>, because the parser removes
  every occurrence of that text and not only the leading one: for the language
  \<open>Reclaimed\<close>, which has no separator, the parts are \<open>1\<close> and \<open>Reed\<close>, and they
  compose to another identifier.
\<close>

theorem decompose_not_left_inverse:
  "CHR ''_'' \<notin> set ''Reclaimed'' \<and>
   json_get (make_jsonl_line (hd df_claims) ''Reclaimed'') ''custom_id'' = Inr (JStr ''claim1_Reclaimed'') \<and>
   decompose ''claim1_Reclaimed'' = Inr (1, ''Reed'') \<and>
   custom_id 1 ''Reed'' \<noteq> ''claim1_Reclaimed''"
  by (simp add: make_jsonl_line_def df_claims_def custom_id_def py_str_def str_nat.simps digit_char_def
      decompose_def py_int_def int_strip_def int_isspace_def int_body_def max_str_digits_def digit_val_def)

text \<open>
  C2, as amended. For all rows and target languages the build loop yields one request
  for every pair of a row and a language, in the order of the nested loops, so as many
  requests as rows times languages. Their identifiers are pairwise different when the
  rows have pairwise different keys and the languages are pairwise different.
\<close>

theorem build_requests_unique:
  "build_requests rows langs = map (\<lambda>(r, l). make_jsonl_line r l) (List.product rows langs) \<and>
   length (build_requests rows langs) = length rows * length langs \<and>
   (distinct (map claim_id rows) \<and> distinct langs \<longrightarrow>
      distinct (map (\<lambda>q. json_get q ''custom_id'') (build_requests rows langs)))"
proof (intro conjI impI)
  show "build_requests rows langs = map (\<lambda>(r, l). make_jsonl_line r l) (List.product rows langs)"
    by (rule build_requests_product)
  show "length (build_requests rows langs) = length rows * length langs"
    by (simp add: build_requests_product)
  assume hyp: "distinct (map claim_id rows) \<and> distinct langs"
  have inj: "inj_on claim_id (set rows)" and dr: "distinct rows"
    using hyp by (simp_all add: distinct_map)
  have dp: "distinct (List.product rows langs)"
    using dr hyp by (intro distinct_product) simp_all
  have "inj_on (\<lambda>(r, l). json_get (make_jsonl_line r l) ''custom_id'') (set (List.product rows langs))"
  proof (rule inj_onI)
    fix x y
    assume x: "x \<in> set (List.product rows langs)" and y: "y \<in> set (List.product rows langs)"
      and eq: "(case x of (r, l) \<Rightarrow> json_get (make_jsonl_line r l) ''custom_id'') =
               (case y of (r, l) \<Rightarrow> json_get (make_jsonl_line r l) ''custom_id'')"
    obtain r l where xe: "x = (r, l)" by (cases x)
    obtain r' l' where ye: "y = (r', l')" by (cases y)
    from eq have "custom_id (sint (claim_id r)) l = custom_id (sint (claim_id r')) l'"
      by (simp add: xe ye request_custom_id)
    then have "sint (claim_id r) = sint (claim_id r')" "l = l'"
      using custom_id_inj by blast+
    then have "claim_id r = claim_id r'"
      using sint_key_inj by blast
    moreover have "r \<in> set rows" "r' \<in> set rows"
      using x y by (auto simp: xe ye)
    ultimately show "x = y"
      using inj \<open>l = l'\<close> by (auto simp: xe ye dest: inj_onD)
  qed
  with dp have d: "distinct (map (\<lambda>(r, l). json_get (make_jsonl_line r l) ''custom_id'') (List.product rows langs))"
    by (simp add: distinct_map)
  have m: "map (\<lambda>q. json_get q ''custom_id'') (build_requests rows langs) =
        map (\<lambda>(r, l). json_get (make_jsonl_line r l) ''custom_id'') (List.product rows langs)"
    by (simp add: build_requests_product o_def split_def)
  show "distinct (map (\<lambda>q. json_get q ''custom_id'') (build_requests rows langs))"
    unfolding m by (rule d)
qed

theorem build_requests_unique_witness:
  "distinct (map claim_id df_claims) \<and> distinct TARGET_LANGS \<and>
   length (build_requests df_claims TARGET_LANGS) = 9 \<and>
   distinct (map (\<lambda>q. json_get q ''custom_id'') (build_requests df_claims TARGET_LANGS))"
proof -
  have a: "distinct (map claim_id df_claims)" by (simp add: df_claims_def)
  have b: "distinct TARGET_LANGS" by (simp add: TARGET_LANGS_def)
  have c: "length df_claims * length TARGET_LANGS = 9" by (simp add: df_claims_def TARGET_LANGS_def)
  from build_requests_unique [of df_claims TARGET_LANGS] a b
  have l: "length (build_requests df_claims TARGET_LANGS) = length df_claims * length TARGET_LANGS"
    and d: "distinct (map (\<lambda>q. json_get q ''custom_id'') (build_requests df_claims TARGET_LANGS))"
    by blast+
  from l c have "length (build_requests df_claims TARGET_LANGS) = 9"
    by (simp only:)
  with a b d show ?thesis
    by blast
qed

text \<open>
  C2 as stated fails for rows that share a key: two different rows with the key 1 and
  one language give the identifier \<open>claim1_Spanish\<close> twice.
\<close>

theorem build_requests_shared_key:
  "distinct dup_rows \<and> distinct [''Spanish''] \<and>
   map (\<lambda>q. json_get q ''custom_id'') (build_requests dup_rows [''Spanish'']) =
     [Inr (JStr ''claim1_Spanish''), Inr (JStr ''claim1_Spanish'')] \<and>
   \<not> distinct (map (\<lambda>q. json_get q ''custom_id'') (build_requests dup_rows [''Spanish'']))"
  by (simp add: dup_rows_def make_jsonl_line_def custom_id_def py_str_def str_nat.simps digit_char_def)

text \<open>
  C9. If some line of an output file is bad (its identifier cannot be taken apart, or
  its payload is not JSON), \<open>parse_batch_file\<close> raises and returns no table: the rows of
  the lines before it are lost with it.
\<close>

theorem parse_batch_file_aborts:
  assumes "files s p = Some text"
    and "line \<in> set (splitlines text)"
    and "bad_line loads line"
  shows "\<exists>e. parse_batch_file loads p s = Inl e"
proof -
  obtain e where "parse_line loads line = Inl e"
    using bad_line_raises [OF assms(3)] by blast
  then obtain e' where "parse_lines loads (splitlines text) [] = Inl e'"
    using parse_lines_raises [OF assms(2)] by blast
  then show ?thesis
    using assms(1) by (simp add: parse_batch_file_def read_text_def bind_err_def)
qed

theorem parse_batch_file_aborts_witness:
  "files demo_out (out_dir @ [''batch_1.jsonl'']) = Some ''good line\<newline>bad id\<newline>'' \<and>
   ''bad id'' \<in> set (splitlines ''good line\<newline>bad id\<newline>'') \<and>
   bad_line demo_loads ''bad id'' \<and>
   parse_line demo_loads ''good line'' =
     Inr [(''claim_id'', JInt 1), (''language'', JStr ''Spanish''), (''translation_claim'', JStr ''El calcio'')] \<and>
   (\<exists>e. parse_batch_file demo_loads (out_dir @ [''batch_1.jsonl'']) demo_out = Inl e)"
proof -
  have a: "files demo_out (out_dir @ [''batch_1.jsonl'']) = Some ''good line\<newline>bad id\<newline>''"
    by (simp add: demo_out_def)
  have b: "''bad id'' \<in> set (splitlines ''good line\<newline>bad id\<newline>'')"
    by (simp add: demo_out_lines)
  have c: "bad_line demo_loads ''bad id''"
    by (simp add: bad_line_def demo_loads_def response_blob_def line_custom_id_def bad_id_def)
  have d: "parse_line demo_loads ''good line'' =
     Inr [(''claim_id'', JInt 1), (''language'', JStr ''Spanish''), (''translation_claim'', JStr ''El calcio'')]"
    by (simp add: parse_line_def demo_loads_def response_blob_def line_custom_id_def line_content_def
        bind_err_def decompose_def py_int_def int_strip_def int_isspace_def int_body_def
        max_str_digits_def digit_val_def
        dict_merge_def)
  show ?thesis
    using parse_batch_file_aborts [OF a b c] a b c d by simp
qed

subsection \<open>The poller\<close>

lemma poll_one_PENDING:
  "PENDING (poll_one query r x s) =
     (if terminal (query r x) then removeAll x (PENDING s) else PENDING s)"
  by (simp add: poll_one_def Let_def terminal_def)

lemma poll_one_COMPLETED:
  "COMPLETED (poll_one query r x s) =
     (if query r x = ''completed'' then List.insert x (COMPLETED s) else COMPLETED s)"
  by (simp add: poll_one_def Let_def)

lemma poll_one_FAILED:
  "FAILED (poll_one query r x s) =
     (if query r x = ''failed'' then List.insert x (FAILED s) else FAILED s)"
  by (simp add: poll_one_def Let_def)

lemma poll_one_out: "out (poll_one query r x s) = out s"
  by (simp add: poll_one_def Let_def)

lemma fold_poll_one_PENDING:
  "set (PENDING (fold (poll_one query r) xs s)) =
     {b \<in> set (PENDING s). \<not> (b \<in> set xs \<and> terminal (query r b))}"
proof (induction xs arbitrary: s)
  case Nil
  then show ?case by simp
next
  case (Cons x xs)
  have "set (PENDING (fold (poll_one query r) (x # xs) s)) =
        {b \<in> set (PENDING (poll_one query r x s)). \<not> (b \<in> set xs \<and> terminal (query r b))}"
    by (simp add: Cons)
  also have "\<dots> = {b \<in> set (PENDING s). \<not> (b \<in> set (x # xs) \<and> terminal (query r b))}"
    by (auto simp: poll_one_PENDING)
  finally show ?case .
qed

lemma fold_poll_one_COMPLETED:
  "set (COMPLETED (fold (poll_one query r) xs s)) =
     set (COMPLETED s) \<union> {b \<in> set xs. query r b = ''completed''}"
proof (induction xs arbitrary: s)
  case Nil
  then show ?case by simp
next
  case (Cons x xs)
  have "set (COMPLETED (fold (poll_one query r) (x # xs) s)) =
        set (COMPLETED (poll_one query r x s)) \<union> {b \<in> set xs. query r b = ''completed''}"
    by (simp add: Cons)
  also have "\<dots> = set (COMPLETED s) \<union> {b \<in> set (x # xs). query r b = ''completed''}"
    by (auto simp: poll_one_COMPLETED)
  finally show ?case .
qed

lemma fold_poll_one_FAILED:
  "set (FAILED (fold (poll_one query r) xs s)) =
     set (FAILED s) \<union> {b \<in> set xs. query r b = ''failed''}"
proof (induction xs arbitrary: s)
  case Nil
  then show ?case by simp
next
  case (Cons x xs)
  have "set (FAILED (fold (poll_one query r) (x # xs) s)) =
        set (FAILED (poll_one query r x s)) \<union> {b \<in> set xs. query r b = ''failed''}"
    by (simp add: Cons)
  also have "\<dots> = set (FAILED s) \<union> {b \<in> set (x # xs). query r b = ''failed''}"
    by (auto simp: poll_one_FAILED)
  finally show ?case .
qed

lemma fold_poll_one_out: "out (fold (poll_one query r) xs s) = out s"
  by (induction xs arbitrary: s) (simp_all add: poll_one_out)

lemma fold_poll_one_distinct:
  "distinct (COMPLETED s) \<Longrightarrow> distinct (FAILED s) \<Longrightarrow>
   distinct (COMPLETED (fold (poll_one query r) xs s)) \<and> distinct (FAILED (fold (poll_one query r) xs s))"
proof (induction xs arbitrary: s)
  case Nil
  then show ?case by simp
next
  case (Cons x xs)
  have "distinct (COMPLETED (poll_one query r x s))" "distinct (FAILED (poll_one query r x s))"
    using Cons.prems by (simp_all add: poll_one_COMPLETED poll_one_FAILED)
  then show ?case
    using Cons.IH [of "poll_one query r x s"] by simp
qed

lemma poll_round_PENDING:
  "set (PENDING (poll_round query r s)) = {b \<in> set (PENDING s). \<not> terminal (query r b)}"
  by (auto simp: poll_round_def Let_def fold_poll_one_PENDING)

lemma poll_round_COMPLETED:
  "set (COMPLETED (poll_round query r s)) =
     set (COMPLETED s) \<union> {b \<in> set (PENDING s). query r b = ''completed''}"
  by (simp add: poll_round_def Let_def fold_poll_one_COMPLETED)

lemma poll_round_FAILED:
  "set (FAILED (poll_round query r s)) =
     set (FAILED s) \<union> {b \<in> set (PENDING s). query r b = ''failed''}"
  by (simp add: poll_round_def Let_def fold_poll_one_FAILED)

lemma poll_round_out:
  "out (poll_round query r s) =
     out s @ [Progress (length (COMPLETED (poll_round query r s))) (length (FAILED (poll_round query r s)))
                (length (PENDING (poll_round query r s)))]"
  by (simp add: poll_round_def Let_def fold_poll_one_out)

lemma poll_round_distinct:
  "distinct (COMPLETED s) \<Longrightarrow> distinct (FAILED s) \<Longrightarrow>
   distinct (COMPLETED (poll_round query r s)) \<and> distinct (FAILED (poll_round query r s))"
  using fold_poll_one_distinct [of s query r "PENDING s"] by (simp add: poll_round_def Let_def)

lemma rounds_Suc: "rounds query r (Suc n) s = poll_round query (r + n) (rounds query r n s)"
proof (induction n arbitrary: r s)
  case 0
  then show ?case by simp
next
  case (Suc n)
  have "rounds query r (Suc (Suc n)) s = rounds query (Suc r) (Suc n) (poll_round query r s)"
    by simp
  also have "\<dots> = poll_round query (Suc r + n) (rounds query (Suc r) n (poll_round query r s))"
    by (rule Suc)
  finally show ?case by simp
qed

lemma loop_returns:
  assumes "poll_loop query r s = Some s'"
  shows "\<exists>n. s' = rounds query r n s \<and> PENDING s' = [] \<and>
             (\<forall>m<n. PENDING (rounds query r m s) \<noteq> [])"
proof (rule poll_loop.raw_induct
    [where P = "\<lambda>query r s s'. \<exists>n. s' = rounds query r n s \<and> PENDING s' = [] \<and>
                   (\<forall>m<n. PENDING (rounds query r m s) \<noteq> [])", OF _ assms])
  fix loop :: "(nat \<Rightarrow> string \<Rightarrow> string) \<Rightarrow> nat \<Rightarrow> poll_state \<Rightarrow> poll_state option"
  fix query r s s'
  assume IH: "\<And>query r s s'. loop query r s = Some s' \<Longrightarrow>
      \<exists>n. s' = rounds query r n s \<and> PENDING s' = [] \<and> (\<forall>m<n. PENDING (rounds query r m s) \<noteq> [])"
    and step: "(if PENDING s \<noteq> [] then loop query (Suc r) (poll_round query r s) else Some s) = Some s'"
  show "\<exists>n. s' = rounds query r n s \<and> PENDING s' = [] \<and> (\<forall>m<n. PENDING (rounds query r m s) \<noteq> [])"
  proof (cases "PENDING s = []")
    case True
    with step have "s' = s" by simp
    with True show ?thesis by (intro exI [of _ 0]) simp
  next
    case False
    with step have "loop query (Suc r) (poll_round query r s) = Some s'" by simp
    then obtain n where n: "s' = rounds query (Suc r) n (poll_round query r s)" "PENDING s' = []"
      "\<forall>m<n. PENDING (rounds query (Suc r) m (poll_round query r s)) \<noteq> []"
      using IH by blast
    have "PENDING (rounds query r m s) \<noteq> []" if "m < Suc n" for m
      using that False n(3) by (cases m) auto
    with n show ?thesis by (intro exI [of _ "Suc n"]) simp
  qed
qed

lemma loop_runs:
  "PENDING (rounds query r n s) = [] \<Longrightarrow> (\<forall>m<n. PENDING (rounds query r m s) \<noteq> []) \<Longrightarrow>
   poll_loop query r s = Some (rounds query r n s)"
proof (induction n arbitrary: r s)
  case 0
  then show ?case by (subst poll_loop.simps) simp
next
  case (Suc n)
  from Suc.prems(2) have ne: "PENDING s \<noteq> []" by force
  have "\<forall>m<n. PENDING (rounds query (Suc r) m (poll_round query r s)) \<noteq> []"
    using Suc.prems(2) by force
  then have "poll_loop query (Suc r) (poll_round query r s) = Some (rounds query (Suc r) n (poll_round query r s))"
    using Suc.prems(1) by (intro Suc.IH) simp_all
  with ne show ?case by (subst poll_loop.simps) simp
qed

lemma init_sets:
  "set (PENDING (poll_init ids)) = set ids" "COMPLETED (poll_init ids) = []" "FAILED (poll_init ids) = []"
  by (simp_all add: poll_init_def)

lemma rounds_PENDING:
  "set (PENDING (rounds query 0 n (poll_init ids))) = {b \<in> set ids. \<forall>r<n. \<not> terminal (query r b)}"
proof (induction n)
  case 0
  then show ?case by (simp add: init_sets)
next
  case (Suc n)
  show ?case
    unfolding rounds_Suc poll_round_PENDING Suc
    by (auto simp: less_Suc_eq)
qed

lemma rounds_COMPLETED:
  "set (COMPLETED (rounds query 0 n (poll_init ids))) =
     {b \<in> set ids. \<exists>r<n. query r b = ''completed'' \<and> (\<forall>k<r. \<not> terminal (query k b))}"
proof (induction n)
  case 0
  then show ?case by (simp add: init_sets)
next
  case (Suc n)
  show ?case
    unfolding rounds_Suc poll_round_COMPLETED Suc rounds_PENDING
    by (auto simp: less_Suc_eq)
qed

lemma rounds_FAILED:
  "set (FAILED (rounds query 0 n (poll_init ids))) =
     {b \<in> set ids. \<exists>r<n. query r b = ''failed'' \<and> (\<forall>k<r. \<not> terminal (query k b))}"
proof (induction n)
  case 0
  then show ?case by (simp add: init_sets)
next
  case (Suc n)
  show ?case
    unfolding rounds_Suc poll_round_FAILED Suc rounds_PENDING
    by (auto simp: less_Suc_eq)
qed

lemma rounds_distinct:
  "distinct (COMPLETED (rounds query 0 n (poll_init ids))) \<and>
   distinct (FAILED (rounds query 0 n (poll_init ids)))"
proof (induction n)
  case 0
  then show ?case by (simp add: init_sets)
next
  case (Suc n)
  then show ?case
    unfolding rounds_Suc by (intro poll_round_distinct) simp_all
qed

lemma poll_cell_iff:
  "poll_cell query ids = Some s \<longleftrightarrow>
     (\<exists>n. PENDING (rounds query 0 n (poll_init ids)) = [] \<and>
          (\<forall>m<n. PENDING (rounds query 0 m (poll_init ids)) \<noteq> []) \<and>
          s = (rounds query 0 n (poll_init ids))\<lparr>out := out (rounds query 0 n (poll_init ids)) @ [AllResolved]\<rparr>)"
proof
  assume "poll_cell query ids = Some s"
  then obtain s' where s': "poll_loop query 0 (poll_init ids) = Some s'"
    and s: "s = s'\<lparr>out := out s' @ [AllResolved]\<rparr>"
    by (auto simp: poll_cell_def)
  from loop_returns [OF s'] s show "\<exists>n. PENDING (rounds query 0 n (poll_init ids)) = [] \<and>
          (\<forall>m<n. PENDING (rounds query 0 m (poll_init ids)) \<noteq> []) \<and>
          s = (rounds query 0 n (poll_init ids))\<lparr>out := out (rounds query 0 n (poll_init ids)) @ [AllResolved]\<rparr>"
    by auto
next
  assume "\<exists>n. PENDING (rounds query 0 n (poll_init ids)) = [] \<and>
          (\<forall>m<n. PENDING (rounds query 0 m (poll_init ids)) \<noteq> []) \<and>
          s = (rounds query 0 n (poll_init ids))\<lparr>out := out (rounds query 0 n (poll_init ids)) @ [AllResolved]\<rparr>"
  then obtain n where n: "PENDING (rounds query 0 n (poll_init ids)) = []"
      "\<forall>m<n. PENDING (rounds query 0 m (poll_init ids)) \<noteq> []"
      "s = (rounds query 0 n (poll_init ids))\<lparr>out := out (rounds query 0 n (poll_init ids)) @ [AllResolved]\<rparr>"
    by blast
  from loop_runs [OF n(1,2)] n(3) show "poll_cell query ids = Some s"
    by (simp add: poll_cell_def)
qed

lemma poll_cell_returns_iff:
  "(\<exists>s. poll_cell query ids = Some s) \<longleftrightarrow> (\<exists>n. \<forall>b \<in> set ids. \<exists>r<n. terminal (query r b))"
proof -
  let ?S = "\<lambda>n. rounds query 0 n (poll_init ids)"
  have empty: "PENDING (?S n) = [] \<longleftrightarrow> (\<forall>b \<in> set ids. \<exists>r<n. terminal (query r b))" for n
  proof -
    have "PENDING (?S n) = [] \<longleftrightarrow> set (PENDING (?S n)) = {}" by simp
    also have "\<dots> \<longleftrightarrow> (\<forall>b \<in> set ids. \<exists>r<n. terminal (query r b))"
      unfolding rounds_PENDING by auto
    finally show ?thesis .
  qed
  show ?thesis
  proof
    assume "\<exists>s. poll_cell query ids = Some s"
    then obtain n where "PENDING (?S n) = []"
      using poll_cell_iff [of query ids] by blast
    then show "\<exists>n. \<forall>b \<in> set ids. \<exists>r<n. terminal (query r b)"
      using empty by blast
  next
    assume "\<exists>n. \<forall>b \<in> set ids. \<exists>r<n. terminal (query r b)"
    then have ex: "\<exists>n. PENDING (?S n) = []"
      using empty by blast
    define n where "n = (LEAST n. PENDING (?S n) = [])"
    have "PENDING (?S n) = []"
      unfolding n_def using ex by (rule LeastI_ex)
    moreover have "\<forall>m<n. PENDING (?S m) \<noteq> []"
      unfolding n_def using not_less_Least by blast
    ultimately show "\<exists>s. poll_cell query ids = Some s"
      using poll_cell_iff [of query ids] by blast
  qed
qed

lemma completed_failed_disjoint:
  "set (COMPLETED (rounds query 0 n (poll_init ids))) \<inter> set (FAILED (rounds query 0 n (poll_init ids))) = {}"
proof -
  have False
    if "query r1 b = ''completed''" "\<forall>k<r1. \<not> terminal (query k b)"
      "query r2 b = ''failed''" "\<forall>k<r2. \<not> terminal (query k b)" for r1 r2 b
  proof (cases r1 r2 rule: linorder_cases)
    case less
    with that show ?thesis by (auto simp: terminal_def)
  next
    case equal
    with that show ?thesis by simp
  next
    case greater
    with that show ?thesis by (auto simp: terminal_def)
  qed
  then show ?thesis
    unfolding rounds_COMPLETED rounds_FAILED by blast
qed

lemma demo_run:
  "\<exists>n. PENDING (rounds demo_query 0 n (poll_init demo_ids)) = [] \<and>
       (\<forall>m<n. PENDING (rounds demo_query 0 m (poll_init demo_ids)) \<noteq> []) \<and>
       demo_polled = (rounds demo_query 0 n (poll_init demo_ids))
          \<lparr>out := out (rounds demo_query 0 n (poll_init demo_ids)) @ [AllResolved]\<rparr>"
  by (rule exI [of _ "Suc (Suc (Suc 0))"])
     (simp add: less_Suc_eq demo_polled_def poll_round_def poll_one_def poll_init_def
        demo_query_def demo_ids_def Let_def)

lemma demo_poll_cell: "poll_cell demo_query demo_ids = Some demo_polled"
  using demo_run by (simp only: poll_cell_iff)

lemma first_terminal:
  fixes query :: "nat \<Rightarrow> string \<Rightarrow> string"
  assumes "r < n" and "terminal (query r b)"
  shows "\<exists>r'<n. terminal (query r' b) \<and> (\<forall>k<r'. \<not> terminal (query k b))"
proof -
  define r' where "r' = (LEAST k. terminal (query k b))"
  have t: "terminal (query r' b)"
    unfolding r'_def using assms(2) by (rule LeastI [of "\<lambda>k. terminal (query k b)" r])
  have "r' \<le> r"
    unfolding r'_def using assms(2) by (rule Least_le [of "\<lambda>k. terminal (query k b)" r])
  with assms(1) have l: "r' < n" by simp
  have m: "\<forall>k<r'. \<not> terminal (query k b)"
    unfolding r'_def using not_less_Least by blast
  from l t m show ?thesis by blast
qed

lemma rounds_all_resolved:
  assumes "PENDING (rounds query 0 n (poll_init ids)) = []"
  shows "set (COMPLETED (rounds query 0 n (poll_init ids))) \<union>
         set (FAILED (rounds query 0 n (poll_init ids))) = set ids"
proof -
  have "set (PENDING (rounds query 0 n (poll_init ids))) = {}"
    using assms by simp
  then have all: "\<forall>b \<in> set ids. \<exists>r<n. terminal (query r b)"
    unfolding rounds_PENDING by auto
  have "b \<in> set (COMPLETED (rounds query 0 n (poll_init ids))) \<union>
            set (FAILED (rounds query 0 n (poll_init ids)))" if "b \<in> set ids" for b
  proof -
    from all that obtain r where "r < n" "terminal (query r b)" by blast
    then obtain r' where "r' < n" "terminal (query r' b)" "\<forall>k<r'. \<not> terminal (query k b)"
      using first_terminal by blast
    with that show ?thesis
      unfolding rounds_COMPLETED rounds_FAILED by (auto simp: terminal_def)
  qed
  moreover have "set (COMPLETED (rounds query 0 n (poll_init ids))) \<union>
         set (FAILED (rounds query 0 n (poll_init ids))) \<subseteq> set ids"
    unfolding rounds_COMPLETED rounds_FAILED by auto
  ultimately show ?thesis by blast
qed

lemma poll_cell_resolved:
  assumes "poll_cell query ids = Some s"
  shows "PENDING s = [] \<and> set (COMPLETED s) \<union> set (FAILED s) = set ids \<and>
         set (COMPLETED s) \<inter> set (FAILED s) = {}"
proof -
  from assms obtain n where n: "PENDING (rounds query 0 n (poll_init ids)) = []"
      and s: "s = (rounds query 0 n (poll_init ids))\<lparr>out := out (rounds query 0 n (poll_init ids)) @ [AllResolved]\<rparr>"
    using poll_cell_iff [of query ids s] by blast
  show ?thesis
    using n rounds_all_resolved [OF n] completed_failed_disjoint [of query n ids] by (simp add: s)
qed


text \<open>
  C4. The polling cell returns exactly when, for some number of rounds, every batch id
  has been answered with \<open>completed\<close> or \<open>failed\<close> in one of them; it returns the state
  after the first round that leaves nothing pending, and in that state every batch id
  is in \<open>COMPLETED\<close> or in \<open>FAILED\<close>, and none in both. After any number \<open>n\<close> of
  rounds, a batch id is in \<open>COMPLETED\<close> (in \<open>FAILED\<close>) exactly when the first terminal
  answer for it, in a round before \<open>n\<close>, was \<open>completed\<close> (was \<open>failed\<close>), and it is in
  \<open>PENDING\<close> exactly when no round before \<open>n\<close> gave a terminal answer for it.
\<close>

theorem poll_loop_exact:
  "((\<exists>s'. poll_cell query batch_ids = Some s') \<longleftrightarrow>
      (\<exists>n. \<forall>b \<in> set batch_ids. \<exists>r<n. terminal (query r b))) \<and>
   (poll_cell query batch_ids = Some s \<longleftrightarrow>
      (\<exists>n. PENDING (rounds query 0 n (poll_init batch_ids)) = [] \<and>
           (\<forall>m<n. PENDING (rounds query 0 m (poll_init batch_ids)) \<noteq> []) \<and>
           s = (rounds query 0 n (poll_init batch_ids))
                 \<lparr>out := out (rounds query 0 n (poll_init batch_ids)) @ [AllResolved]\<rparr>)) \<and>
   (poll_cell query batch_ids = Some s \<longrightarrow>
      PENDING s = [] \<and> set (COMPLETED s) \<union> set (FAILED s) = set batch_ids \<and>
      set (COMPLETED s) \<inter> set (FAILED s) = {}) \<and>
   set (PENDING (rounds query 0 n (poll_init batch_ids))) =
     {b \<in> set batch_ids. \<forall>r<n. \<not> terminal (query r b)} \<and>
   set (COMPLETED (rounds query 0 n (poll_init batch_ids))) =
     {b \<in> set batch_ids. \<exists>r<n. query r b = ''completed'' \<and> (\<forall>k<r. \<not> terminal (query k b))} \<and>
   set (FAILED (rounds query 0 n (poll_init batch_ids))) =
     {b \<in> set batch_ids. \<exists>r<n. query r b = ''failed'' \<and> (\<forall>k<r. \<not> terminal (query k b))}"
proof (intro conjI)
  show "(\<exists>s'. poll_cell query batch_ids = Some s') \<longleftrightarrow>
      (\<exists>n. \<forall>b \<in> set batch_ids. \<exists>r<n. terminal (query r b))"
    by (rule poll_cell_returns_iff)
  show "poll_cell query batch_ids = Some s \<longleftrightarrow>
      (\<exists>n. PENDING (rounds query 0 n (poll_init batch_ids)) = [] \<and>
           (\<forall>m<n. PENDING (rounds query 0 m (poll_init batch_ids)) \<noteq> []) \<and>
           s = (rounds query 0 n (poll_init batch_ids))
                 \<lparr>out := out (rounds query 0 n (poll_init batch_ids)) @ [AllResolved]\<rparr>)"
    by (rule poll_cell_iff)
  show "poll_cell query batch_ids = Some s \<longrightarrow>
      PENDING s = [] \<and> set (COMPLETED s) \<union> set (FAILED s) = set batch_ids \<and>
      set (COMPLETED s) \<inter> set (FAILED s) = {}"
    using poll_cell_resolved [of query batch_ids s] by (rule impI)
  show "set (PENDING (rounds query 0 n (poll_init batch_ids))) =
     {b \<in> set batch_ids. \<forall>r<n. \<not> terminal (query r b)}"
    by (rule rounds_PENDING)
  show "set (COMPLETED (rounds query 0 n (poll_init batch_ids))) =
     {b \<in> set batch_ids. \<exists>r<n. query r b = ''completed'' \<and> (\<forall>k<r. \<not> terminal (query k b))}"
    by (rule rounds_COMPLETED)
  show "set (FAILED (rounds query 0 n (poll_init batch_ids))) =
     {b \<in> set batch_ids. \<exists>r<n. query r b = ''failed'' \<and> (\<forall>k<r. \<not> terminal (query k b))}"
    by (rule rounds_FAILED)
qed


theorem poll_loop_exact_witness:
  "poll_cell demo_query demo_ids = Some demo_polled \<and>
   set (COMPLETED (rounds demo_query 0 3 (poll_init demo_ids))) = {''batch_1''} \<and>
   set (FAILED (rounds demo_query 0 3 (poll_init demo_ids))) = {''batch_2''} \<and>
   set (PENDING (rounds demo_query 0 1 (poll_init demo_ids))) = {''batch_1'', ''batch_2''}"
proof -
  have a: "poll_cell demo_query demo_ids = Some demo_polled"
    using poll_loop_exact [of demo_query demo_ids demo_polled 0] demo_run by blast
  have b: "set (COMPLETED (rounds demo_query 0 3 (poll_init demo_ids))) = {''batch_1''}"
    "set (FAILED (rounds demo_query 0 3 (poll_init demo_ids))) = {''batch_2''}"
    "set (PENDING (rounds demo_query 0 1 (poll_init demo_ids))) = {''batch_1'', ''batch_2''}"
    by (simp_all add: eval_nat_numeral poll_round_def poll_one_def poll_init_def demo_query_def demo_ids_def Let_def)
  from a b show ?thesis by blast
qed

subsection \<open>Download and aggregation\<close>

lemma download_output_cong:
  assumes "retrieve svc' b = retrieve svc b" and "content svc' = content svc"
  shows "download_output svc' b s = download_output svc b s"
  unfolding download_output_def assms by (rule refl)

lemma download_all_cong:
  "\<forall>b \<in> set bids. retrieve svc' b = retrieve svc b \<Longrightarrow> content svc' = content svc \<Longrightarrow>
   download_all svc' loads bids acc = download_all svc loads bids acc"
proof (induction bids arbitrary: acc)
  case Nil
  then show ?case by simp
next
  case (Cons b bids)
  obtain ts s where acc: "acc = (ts, s)" by (cases acc)
  have "download_output svc' b s = download_output svc b s"
    using Cons.prems by (intro download_output_cong) simp_all
  moreover have "download_all svc' loads bids a = download_all svc loads bids a" for a
    using Cons.prems by (intro Cons.IH) simp_all
  ultimately show ?case
    by (simp add: acc split: sum.split prod.split option.split)
qed

lemma mkdir_exist_ok_again: "mkdir_exist_ok p s = Inr s1 \<Longrightarrow> mkdir_exist_ok p s1 = Inr s1"
  by (auto simp: mkdir_exist_ok_def split: if_splits)

lemma download_all_none:
  assumes "\<forall>b \<in> set bids. status (retrieve svc b) \<noteq> ''completed''"
    and "mkdir_exist_ok out_dir s = Inr s1"
  shows "download_all svc loads bids (ts, s) = Inr (ts, if bids = [] then s else s1)"
  using assms
proof (induction bids arbitrary: s)
  case Nil
  then show ?case by simp
next
  case (Cons b bids)
  have d: "download_output svc b s = Inr (None, s1)"
    using Cons.prems by (simp add: download_output_def bind_err_def Let_def)
  have "download_all svc loads bids (ts, s1) = Inr (ts, if bids = [] then s1 else s1)"
    using Cons.prems mkdir_exist_ok_again [OF Cons.prems(2)] by (intro Cons.IH) simp_all
  then show ?case
    by (simp add: d)
qed

lemma demo_collect:
  "collect_cell demo_svc demo_loads [''batch_1''] demo_out =
     Inr ([[(''claim_id'', JInt 1), (''language'', JStr ''Spanish''), (''translation_claim'', JStr ''El calcio'')]],
          write_text (out_dir @ [''batch_1.jsonl'']) ''good line\<newline>'' demo_out)"
proof -
  have m: "mkdir_exist_ok out_dir demo_out = Inr demo_out"
    by (simp add: mkdir_exist_ok_def demo_out_def)
  have d: "download_output demo_svc ''batch_1'' demo_out =
      Inr (Some (out_dir @ [''batch_1.jsonl'']), write_text (out_dir @ [''batch_1.jsonl'']) ''good line\<newline>'' demo_out)"
    by (simp add: download_output_def m bind_err_def demo_svc_def Let_def)
  have l: "splitlines ''good line\<newline>'' = [''good line'']"
    by (simp add: splitlines_def is_linebreak_def)
  have g: "parse_line demo_loads ''good line'' =
     Inr [(''claim_id'', JInt 1), (''language'', JStr ''Spanish''), (''translation_claim'', JStr ''El calcio'')]"
    by (simp add: parse_line_def demo_loads_def response_blob_def line_custom_id_def line_content_def
        bind_err_def decompose_def py_int_def int_strip_def int_isspace_def int_body_def
        max_str_digits_def digit_val_def
        dict_merge_def)
  have p: "parse_batch_file demo_loads (out_dir @ [''batch_1.jsonl''])
        (write_text (out_dir @ [''batch_1.jsonl'']) ''good line\<newline>'' demo_out) =
      Inr [[(''claim_id'', JInt 1), (''language'', JStr ''Spanish''), (''translation_claim'', JStr ''El calcio'')]]"
    by (simp add: parse_batch_file_def read_text_def write_text_def bind_err_def l g)
  show ?thesis
    by (simp add: collect_cell_def d p bind_err_def)
qed

text \<open>
  C7. A batch id that the poller leaves in \<open>FAILED\<close> is not in \<open>COMPLETED\<close>, so the
  download cell never asks for it: whatever the service holds for that batch, the
  result of the cell is the same. The last progress line printed counts it: its failed
  count is the number of ids in \<open>FAILED\<close>, and its pending count is zero.
\<close>

theorem failed_batch_reported:
  assumes "poll_cell query batch_ids = Some s"
    and "bid \<in> set (FAILED s)"
  shows "bid \<notin> set (COMPLETED s) \<and>
         (\<forall>svc'. (\<forall>b. b \<noteq> bid \<longrightarrow> retrieve svc' b = retrieve svc b) \<and> content svc' = content svc \<longrightarrow>
            collect_cell svc' loads (COMPLETED s) s0 = collect_cell svc loads (COMPLETED s) s0) \<and>
         (\<exists>evs d. out s = evs @ [Progress d (card (set (FAILED s))) 0, AllResolved])"
proof -
  let ?S = "\<lambda>n. rounds query 0 n (poll_init batch_ids)"
  from assms(1) obtain n where n: "PENDING (?S n) = []"
      and s: "s = (?S n)\<lparr>out := out (?S n) @ [AllResolved]\<rparr>"
    using poll_cell_iff [of query batch_ids s] by blast
  have C: "COMPLETED s = COMPLETED (?S n)" and F: "FAILED s = FAILED (?S n)"
    by (simp_all add: s)
  have notc: "bid \<notin> set (COMPLETED s)"
    using assms(2) completed_failed_disjoint [of query n batch_ids] by (auto simp: C F)
  have indep: "collect_cell svc' loads (COMPLETED s) s0 = collect_cell svc loads (COMPLETED s) s0"
    if "\<forall>b. b \<noteq> bid \<longrightarrow> retrieve svc' b = retrieve svc b" "content svc' = content svc" for svc'
  proof -
    have "\<forall>b \<in> set (COMPLETED s). retrieve svc' b = retrieve svc b"
      using that(1) notc by auto
    then have "download_all svc' loads (COMPLETED s) ([], s0) = download_all svc loads (COMPLETED s) ([], s0)"
      using that(2) by (rule download_all_cong)
    then show ?thesis
      by (simp add: collect_cell_def)
  qed
  have "n \<noteq> 0"
  proof
    assume "n = 0"
    then have "FAILED (?S n) = []" by (simp add: init_sets)
    with assms(2) F show False by simp
  qed
  then obtain k where k: "n = Suc k" by (cases n) auto
  have "out (?S n) = out (?S k) @ [Progress (length (COMPLETED (?S n))) (length (FAILED (?S n))) (length (PENDING (?S n)))]"
    unfolding k rounds_Suc by (simp add: poll_round_out)
  moreover have "length (FAILED (?S n)) = card (set (FAILED (?S n)))"
    using rounds_distinct [of query n batch_ids] by (simp add: distinct_card)
  ultimately have "out s = out (?S k) @ [Progress (length (COMPLETED (?S n))) (card (set (FAILED s))) 0, AllResolved]"
    using n by (simp add: s)
  then show ?thesis
    using notc indep by blast
qed

theorem failed_batch_reported_witness:
  "poll_cell demo_query demo_ids = Some demo_polled \<and>
   ''batch_2'' \<in> set (FAILED demo_polled) \<and>
   ''batch_2'' \<notin> set (COMPLETED demo_polled) \<and>
   collect_cell demo_svc_other demo_loads (COMPLETED demo_polled) demo_out =
     collect_cell demo_svc demo_loads (COMPLETED demo_polled) demo_out \<and>
   collect_cell demo_svc demo_loads (COMPLETED demo_polled) demo_out =
     Inr ([[(''claim_id'', JInt 1), (''language'', JStr ''Spanish''), (''translation_claim'', JStr ''El calcio'')]],
          write_text (out_dir @ [''batch_1.jsonl'']) ''good line\<newline>'' demo_out) \<and>
   (\<exists>evs d. out demo_polled = evs @ [Progress d 1 0, AllResolved])"
proof -
  have f: "''batch_2'' \<in> set (FAILED demo_polled)"
    by (simp add: demo_polled_def)
  have c: "COMPLETED demo_polled = [''batch_1'']" and k: "card (set (FAILED demo_polled)) = 1"
    by (simp_all add: demo_polled_def)
  have o: "\<forall>b. b \<noteq> ''batch_2'' \<longrightarrow> retrieve demo_svc_other b = retrieve demo_svc b"
    "content demo_svc_other = content demo_svc"
    by (simp_all add: demo_svc_other_def)
  from failed_batch_reported [OF demo_poll_cell f, of demo_svc demo_loads demo_out] o
  have "''batch_2'' \<notin> set (COMPLETED demo_polled)"
    and "collect_cell demo_svc_other demo_loads (COMPLETED demo_polled) demo_out =
         collect_cell demo_svc demo_loads (COMPLETED demo_polled) demo_out"
    and "\<exists>evs d. out demo_polled = evs @ [Progress d (card (set (FAILED demo_polled))) 0, AllResolved]"
    by blast+
  then show ?thesis
    using demo_poll_cell f demo_collect by (simp add: c k)
qed

text \<open>
  C6. When the download loop ends with no table, the cell raises \<open>ValueError\<close> and
  returns no data frame; when it ends with at least one table, the cell returns the
  rows of the tables, one table after the other. No table is parsed, in particular,
  when no batch of \<open>COMPLETED\<close> is answered with \<open>completed\<close> at download time.
\<close>

theorem collect_cell_fatal:
  "(download_all svc loads completed ([], s) = Inr ([], s') \<longrightarrow>
      collect_cell svc loads completed s = Inl ValueError) \<and>
   (download_all svc loads completed ([], s) = Inr (all_tables, s') \<and> all_tables \<noteq> [] \<longrightarrow>
      collect_cell svc loads completed s = Inr (concat all_tables, s')) \<and>
   ((\<forall>b \<in> set completed. status (retrieve svc b) \<noteq> ''completed'') \<and>
    mkdir_exist_ok out_dir s = Inr s' \<longrightarrow>
      collect_cell svc loads completed s = Inl ValueError)"
proof (intro conjI impI)
  assume "download_all svc loads completed ([], s) = Inr ([], s')"
  then show "collect_cell svc loads completed s = Inl ValueError"
    by (simp add: collect_cell_def bind_err_def)
next
  assume "download_all svc loads completed ([], s) = Inr (all_tables, s') \<and> all_tables \<noteq> []"
  then show "collect_cell svc loads completed s = Inr (concat all_tables, s')"
    by (simp add: collect_cell_def bind_err_def)
next
  assume "(\<forall>b \<in> set completed. status (retrieve svc b) \<noteq> ''completed'') \<and>
    mkdir_exist_ok out_dir s = Inr s'"
  then have "download_all svc loads completed ([], s) = Inr ([], if completed = [] then s else s')"
    by (intro download_all_none) simp_all
  then show "collect_cell svc loads completed s = Inl ValueError"
    by (simp add: collect_cell_def bind_err_def)
qed

theorem collect_cell_fatal_witness:
  "download_all demo_svc demo_loads [''batch_2''] ([], demo_out) = Inr ([], demo_out) \<and>
   collect_cell demo_svc demo_loads [''batch_2''] demo_out = Inl ValueError \<and>
   collect_cell demo_svc demo_loads [] demo_out = Inl ValueError \<and>
   collect_cell demo_svc demo_loads [''batch_1''] demo_out =
     Inr ([[(''claim_id'', JInt 1), (''language'', JStr ''Spanish''), (''translation_claim'', JStr ''El calcio'')]],
          write_text (out_dir @ [''batch_1.jsonl'']) ''good line\<newline>'' demo_out)"
proof -
  have m: "mkdir_exist_ok out_dir demo_out = Inr demo_out"
    by (simp add: mkdir_exist_ok_def demo_out_def)
  have d: "download_all demo_svc demo_loads [''batch_2''] ([], demo_out) = Inr ([], demo_out)"
    by (simp add: download_output_def m bind_err_def demo_svc_def Let_def)
  have e: "download_all demo_svc demo_loads [] ([], demo_out) = Inr ([], demo_out)"
    by simp
  from collect_cell_fatal [of demo_svc demo_loads "[''batch_2'']" demo_out demo_out] d
  have a: "collect_cell demo_svc demo_loads [''batch_2''] demo_out = Inl ValueError"
    by blast
  from collect_cell_fatal [of demo_svc demo_loads "[]" demo_out demo_out] e
  have b: "collect_cell demo_svc demo_loads [] demo_out = Inl ValueError"
    by blast
  from a b d demo_collect show ?thesis
    by blast
qed

subsection \<open>The API key\<close>

text \<open>
  C5, as amended. If neither the variable nor the key file provides a key, the cell
  raises, and an error result carries no client: the error comes before \<open>OpenAI()\<close>. If
  the variable provides a key, or the variable is not set and the file provides a key,
  the cell raises nothing and builds the client with that key.
\<close>

theorem api_key_cell_sources:
  "(\<not> env_provides environ \<and> \<not> file_provides s \<longrightarrow> (\<exists>e. api_key_cell environ s = Inl e)) \<and>
   (env_provides environ \<longrightarrow>
      (\<exists>k. environ key_name = Some k \<and> api_key_cell environ s = Inr (environ, OpenAI k))) \<and>
   (environ key_name = None \<and> file_provides s \<longrightarrow>
      (\<exists>t. files s key_file = Some t \<and>
           api_key_cell environ s = Inr (environ(key_name \<mapsto> py_strip t), OpenAI (py_strip t))))"
  by (auto simp: api_key_cell_def env_provides_def file_provides_def bind_err_def path_exists_def
      read_text_def putenv_def split: option.splits if_splits)

theorem api_key_cell_sources_witness:
  "api_key_cell Map.empty demo_nokey_fs = Inl ValueError \<and>
   api_key_cell [key_name \<mapsto> ''sk-env''] demo_key_fs = Inr ([key_name \<mapsto> ''sk-env''], OpenAI ''sk-env'') \<and>
   api_key_cell Map.empty demo_key_fs = Inr ([key_name \<mapsto> ''sk-demo''], OpenAI ''sk-demo'')"
proof -
  have s: "py_strip ''sk-demo\<newline>'' = ''sk-demo''"
    by (simp add: py_strip_def py_isspace_def)
  have a: "api_key_cell Map.empty demo_nokey_fs = Inl ValueError"
    by (simp add: api_key_cell_def demo_nokey_fs_def path_exists_def bind_err_def)
  have b: "env_provides [key_name \<mapsto> ''sk-env'']"
    by (simp add: env_provides_def)
  have c: "file_provides demo_key_fs" "files demo_key_fs key_file = Some ''sk-demo\<newline>''"
    by (simp_all add: file_provides_def demo_key_fs_def s)
  from api_key_cell_sources [of "[key_name \<mapsto> ''sk-env'']" demo_key_fs] b
  have b': "api_key_cell [key_name \<mapsto> ''sk-env''] demo_key_fs = Inr ([key_name \<mapsto> ''sk-env''], OpenAI ''sk-env'')"
    by auto
  from api_key_cell_sources [of Map.empty demo_key_fs] c
  have c': "api_key_cell Map.empty demo_key_fs = Inr ([key_name \<mapsto> ''sk-demo''], OpenAI ''sk-demo'')"
    by (auto simp: s)
  from a b' c' show ?thesis by blast
qed

text \<open>
  C5 as stated fails for a variable that is set to the empty string: the file is not
  read then, although it provides a key, and the cell raises.
\<close>

theorem api_key_file_ignored:
  "file_provides demo_key_fs \<and> api_key_cell [key_name \<mapsto> ''''] demo_key_fs = Inl ValueError"
  by (simp add: file_provides_def demo_key_fs_def py_strip_def py_isspace_def api_key_cell_def
      bind_err_def key_name_def)

end
